theory Spec2Isabelle
  imports Complex_Main "HOL-Library.Sublist"
begin

section \<open>Python strings\<close>

text \<open>
  A Python \<open>str\<close> is a sequence of code points. The model covers the code points below
  256, one \<^typ>\<open>char\<close> each, which includes every character of the constants of the
  script. The two characters that cannot be written inside a string literal are given
  by their code.
\<close>

abbreviation BSL :: char where "BSL \<equiv> CHR 0x5C"
abbreviation DQ :: char where "DQ \<equiv> CHR 0x22"
abbreviation LF :: char where "LF \<equiv> CHR 0x0A"
abbreviation CR :: char where "CR \<equiv> CHR 0x0D"

text \<open>\<open>str.isspace\<close> on one code point below 256, as \<open>str.strip()\<close> uses it.\<close>

definition isspace :: "char \<Rightarrow> bool" where
  "isspace c \<longleftrightarrow>
     c \<in> set [CHR 0x09, CHR 0x0A, CHR 0x0B, CHR 0x0C, CHR 0x0D,
              CHR 0x1C, CHR 0x1D, CHR 0x1E, CHR 0x1F, CHR 0x20, CHR 0x85, CHR 0xA0]"

text \<open>The line boundaries of \<open>str.splitlines()\<close> below 256 (\<open>\r\n\<close> counts as one).\<close>

definition is_line_boundary :: "char \<Rightarrow> bool" where
  "is_line_boundary c \<longleftrightarrow>
     c \<in> set [CHR 0x0A, CHR 0x0B, CHR 0x0C, CHR 0x0D, CHR 0x1C, CHR 0x1D, CHR 0x1E, CHR 0x85]"

definition strip :: "string \<Rightarrow> string" where
  "strip s = dropWhile isspace (rev (dropWhile isspace (rev s)))"

definition startswith :: "string \<Rightarrow> string \<Rightarrow> bool" where
  "startswith s p \<longleftrightarrow> take (length p) s = p"

definition endswith :: "string \<Rightarrow> string \<Rightarrow> bool" where
  "endswith s p \<longleftrightarrow> length p \<le> length s \<and> drop (length s - length p) s = p"

text \<open>\<open>sub in s\<close>: \<open>sub\<close> occurs in \<open>s\<close> as a contiguous substring.\<close>

fun contains :: "string \<Rightarrow> string \<Rightarrow> bool" where
  "contains sub [] = (sub = [])"
| "contains sub (c # cs) = (startswith (c # cs) sub \<or> contains sub cs)"

text \<open>
  \<open>s.replace(old, new)\<close>: the occurrences of \<open>old\<close> are found from the left and do
  not overlap; with an empty \<open>old\<close>, \<open>new\<close> is put before every character and at the end.
\<close>

function replace :: "string \<Rightarrow> string \<Rightarrow> string \<Rightarrow> string" where
  "replace old new s =
     (if old = [] then new @ concat (map (\<lambda>c. c # new) s)
      else if s = [] then []
      else if startswith s old then new @ replace old new (drop (length old) s)
      else hd s # replace old new (tl s))"
  by pat_completeness auto
termination
  by (relation "measure (\<lambda>(old, new, s). length s)") auto

declare replace.simps [simp del]

text \<open>\<open>sep.join(xs)\<close>.\<close>

fun join :: "string \<Rightarrow> string list \<Rightarrow> string" where
  "join sep [] = []"
| "join sep [x] = x"
| "join sep (x # y # ys) = x @ sep @ join sep (y # ys)"

text \<open>
  \<open>s.splitlines()\<close>: the lines of \<open>s\<close> without their line boundaries; a boundary at the
  very end opens no further line.
\<close>

fun splitlines :: "string \<Rightarrow> string list" where
  "splitlines [] = []"
| "splitlines (c # cs) =
     (if c = CR \<and> cs \<noteq> [] \<and> hd cs = LF then [] # splitlines (tl cs)
      else if is_line_boundary c then [] # splitlines cs
      else (case splitlines cs of [] \<Rightarrow> [[c]] | l # ls \<Rightarrow> (c # l) # ls))"

text \<open>
  \<open>s.split(sep)\<close> for a non-empty separator (Python raises \<open>ValueError\<close> for an empty
  one; the script only passes constants): the pieces between the occurrences of \<open>sep\<close>,
  found from the left without overlap.
\<close>

function split :: "string \<Rightarrow> string \<Rightarrow> string list" where
  "split sep s =
     (if sep = [] \<or> s = [] then [s]
      else if startswith s sep then [] # split sep (drop (length sep) s)
      else (case split sep (tl s) of [] \<Rightarrow> [[hd s]] | l # ls \<Rightarrow> (hd s # l) # ls))"
  by pat_completeness auto
termination
  by (relation "measure (\<lambda>(sep, s). length s)") auto

declare split.simps [simp del]

section \<open>Constants of the script\<close>

definition TEMP_MOUNT_NAME :: string where
  "TEMP_MOUNT_NAME = ''TempHive''"

definition TARGET_REL_PATH :: string where
  "TARGET_REL_PATH = ''Software'' @ [BSL] @ ''KLab'' @ [BSL] @ ''BleachBraveSouls''"

definition OLD_VALUE_NAME :: string where
  "OLD_VALUE_NAME = ''224515408_h90860828''"

definition NEW_VALUE_NAME :: string where
  "NEW_VALUE_NAME = ''-907038497_h2948477015''"

section \<open>The text processing of \<open>export_and_save\<close>\<close>

text \<open>
  The \<open>while i < len(lines)\<close> loop of \<open>export_and_save\<close>, returning \<open>new_lines\<close>. Each
  line is copied; at a line that, stripped, starts with the quoted old value name and
  \<open>=\<close>, the inner loop copies the following lines for as long as they end, stripped,
  with a backslash, and the name is then replaced in the joined block, which is appended
  as one element; the outer loop goes on after the last line the inner loop took.
\<close>

definition is_old_value_line :: "string \<Rightarrow> bool" where
  "is_old_value_line line \<longleftrightarrow> startswith (strip line) ([DQ] @ OLD_VALUE_NAME @ [DQ] @ ''='')"

definition is_continued :: "string \<Rightarrow> bool" where
  "is_continued line \<longleftrightarrow> endswith (strip line) [BSL]"

function duplicate_blocks :: "string list \<Rightarrow> string list" where
  "duplicate_blocks [] = []"
| "duplicate_blocks (line # rest) =
     (if is_old_value_line line then
        (let block_lines = line # takeWhile is_continued rest;
             new_block = replace OLD_VALUE_NAME NEW_VALUE_NAME (join [LF] block_lines)
         in block_lines @ [new_block] @ duplicate_blocks (dropWhile is_continued rest))
      else line # duplicate_blocks rest)"
  by pat_completeness auto
termination
  by (relation "measure length") (auto simp: less_Suc_eq_le length_dropWhile_le)

text \<open>
  From the text read from the snapshot export to the text written to the output file:
  the header replacement on the whole text, then the loop over its lines.
\<close>

definition hive_header :: "string \<Rightarrow> string" where
  "hive_header hive_mount_name =
     ''[HKEY_USERS'' @ [BSL] @ hive_mount_name @ [BSL] @ TARGET_REL_PATH @ '']''"

definition hkcu_header :: string where
  "hkcu_header = ''[HKEY_CURRENT_USER'' @ [BSL] @ TARGET_REL_PATH @ '']''"

definition fix_export_text :: "string \<Rightarrow> string \<Rightarrow> string" where
  "fix_export_text hive_mount_name data =
     (let data_fixed = replace (hive_header hive_mount_name) hkcu_header data;
          lines = splitlines data_fixed;
          new_lines = duplicate_blocks lines
      in join [LF] new_lines)"

section \<open>Dates and times\<close>

text \<open>
  An aware UTC \<open>datetime\<close> is the number of microseconds since 1970-01-01 00:00:00 UTC,
  so that comparing two of them compares the instants. \<open>utc_datetime\<close> is the
  constructor \<open>datetime.datetime(y, m, d, hh, mm, ss, tzinfo=utc)\<close>.
\<close>

type_synonym datetime = int

definition days_from_civil :: "int \<Rightarrow> int \<Rightarrow> int \<Rightarrow> int" where
  "days_from_civil y m d =
     (let y' = (if m \<le> 2 then y - 1 else y);
          era = y' div 400;
          yoe = y' - era * 400;
          doy = (153 * (if m > 2 then m - 3 else m + 9) + 2) div 5 + d - 1;
          doe = yoe * 365 + yoe div 4 - yoe div 100 + doy
      in era * 146097 + doe - 719468)"

definition utc_datetime :: "int \<Rightarrow> int \<Rightarrow> int \<Rightarrow> int \<Rightarrow> int \<Rightarrow> int \<Rightarrow> datetime" where
  "utc_datetime y m d hh mm ss =
     (days_from_civil y m d * 86400 + hh * 3600 + mm * 60 + ss) * 1000000"

definition CUTOFF_DATETIME :: datetime where
  "CUTOFF_DATETIME = utc_datetime 2025 10 4 9 10 16"

text \<open>
  \<open>datetime.fromtimestamp(t, timezone.utc)\<close> for a float \<open>t\<close> of seconds, taken as a
  real number: the nearest microsecond, a tie going to the even one.
\<close>

definition round_half_even :: "real \<Rightarrow> int" where
  "round_half_even x =
     (let f = \<lfloor>x\<rfloor>; d = x - of_int f
      in if d < 1 / 2 then f else if d > 1 / 2 then f + 1 else if even f then f else f + 1)"

definition fromtimestamp_utc :: "real \<Rightarrow> datetime" where
  "fromtimestamp_utc t = round_half_even (t * 1000000)"

text \<open>A naive \<open>datetime\<close>, as \<open>strptime\<close> returns it.\<close>

record naive_datetime =
  year :: int
  month :: int
  day :: int
  hour :: int
  minute :: int
  second :: int

section \<open>The machine the script runs on\<close>

datatype exn =
    FileNotFoundError | PermissionError | OSError | CalledProcessError
  | UnicodeError | TypeError | RuntimeError | ValueError

datatype 'a result = Return 'a | Raise exn

text \<open>
  The registry: a value is the pair \<open>(val, vtype)\<close> that \<open>QueryValueEx\<close> returns, a key
  maps value names to values, and a tree maps key paths (relative to its root) to keys.
\<close>

type_synonym reg_value = "string \<times> nat"
type_synonym reg_key = "string \<rightharpoonup> reg_value"
type_synonym reg_tree = "string \<rightharpoonup> reg_key"

text \<open>
  A file is what reading it yields: its text under each of the two encodings the script
  uses (\<open>None\<close> when decoding raises), and the registry tree it holds when it is a hive
  (\<open>None\<close> when \<open>reg load\<close> rejects it).
\<close>

record disk_file =
  as_utf16 :: "string option"
  as_utf8 :: "string option"
  as_hive :: "reg_tree option"

datatype root = HKCU | HKU string

text \<open>Everything the script prints, one constructor for each \<open>print\<close> of the source.\<close>

datatype message =
    LiveKeyBackedUp string
  | FailedToBackupLiveKey exn
  | RegFileDoesNotExist string
  | FailedToReadAsUtf16 string
  | KeyLineNotFound string string
  | FixedRegExported string
  | MergedRegIntoLive string
  | FailedToMerge exn
  | SkippingRestorePoint string datetime datetime
  | CouldNotParseVssTime string exn
  | DebugVss string datetime bool
  | NoValidVssSnapshots
  | ErrorModifyingHive exn
  | FailedToExportHive exn
  | FixedRegFileCreated string
  | MergedKeyIntoLive string
  | ErrorCreatingFixedExport exn
  | NoRestorePointsBeforeCutoff
  | NoSuitableRestorePoint
  | FoundCandidateNtuser string
  | ErrorAccessingSnapshot string exn
  | NoSuitableVssSnapshot
  | IntendedForWindows
  | RunAsAdministrator
  | RunningInMode bool
  | ErrorMessage exn
  | KeyNotFoundAnywhere

text \<open>
  What the script does to the machine, in order: console output, the commands it runs
  with \<open>subprocess.run\<close> (by their argument list), \<open>winreg.SetValueEx\<close> (key, value
  name, type, value), text files written and files removed.
\<close>

datatype event =
    Print message
  | Run "string list"
  | SetValueEx string string nat string
  | WriteText string string
  | Remove string

text \<open>
  The state that the script changes: its global \<open>SIMULATION_MODE\<close>, the files, the
  live key tree of \<open>HKEY_CURRENT_USER\<close>, the hive file loaded under each name of
  \<open>HKEY_USERS\<close>, and the trace of what it did.
\<close>

record world =
  SIMULATION_MODE :: bool
  files :: "string \<rightharpoonup> disk_file"
  hkcu :: reg_tree
  mounted :: "string \<rightharpoonup> string"
  trace :: "event list"

text \<open>
  What the script only asks the machine, and the behaviour of the programs and library
  functions it calls whose code is not part of it.
\<close>

record env =
  os_name :: string
  IsUserAnAdmin :: "int option"
  whoami_sid :: "string option"
  USERNAME :: "string option"
  glob_rp :: "string list"
  isdir :: "string \<Rightarrow> bool"
  listdir :: "string \<Rightarrow> string list"
  getmtime :: "string \<Rightarrow> real"
  vssadmin_stdout :: string
  strptime :: "string \<Rightarrow> naive_datetime option"
  local_to_utc :: "naive_datetime \<Rightarrow> datetime option"
  reg_text :: "string \<Rightarrow> reg_key \<Rightarrow> string"
  reg_merge :: "string \<Rightarrow> reg_tree \<Rightarrow> reg_tree option"
  access_denied :: "string \<Rightarrow> bool"
  write_fails :: "string \<Rightarrow> bool"
  unload_fails :: "string \<Rightarrow> bool"

text \<open>
  \<^item> \<open>IsUserAnAdmin\<close>: the value of \<open>ctypes.windll.shell32.IsUserAnAdmin()\<close>, \<open>None\<close>
    when the call raises.
  \<^item> \<open>whoami_sid\<close>: the SID that \<open>get_user_sid\<close> finds in the output of \<open>whoami /user\<close>,
    \<open>None\<close> when the command fails or its output holds none.
  \<^item> \<open>glob_rp\<close>: the paths \<open>glob.iglob\<close> yields for \<open>RP*\<close> below
    \<open>C:\System Volume Information\<close>.
  \<^item> \<open>strptime\<close>: \<open>datetime.strptime(s, "%m/%d/%Y %I:%M:%S %p")\<close>, and \<open>local_to_utc\<close>:
    \<open>astimezone(timezone.utc)\<close> on its naive result; \<open>None\<close> when they raise.
  \<^item> \<open>reg_text\<close>: the text \<open>reg export\<close> writes for a key, and \<open>reg_merge\<close>: the tree
    \<open>reg import\<close> leaves for a text, \<open>None\<close> when it fails.
  \<^item> \<open>access_denied\<close>, \<open>write_fails\<close>, \<open>unload_fails\<close>, by hive file: \<open>OpenKey\<close> with
    \<open>KEY_ALL_ACCESS\<close> raises \<open>PermissionError\<close>, \<open>SetValueEx\<close> raises \<open>OSError\<close>,
    \<open>reg unload\<close> exits with an error.
  Writing a text file and removing an existing file are taken to succeed, a listed
  directory to be readable, and \<open>os.path.abspath\<close> to leave a file name as it is.
\<close>

definition print :: "message \<Rightarrow> world \<Rightarrow> world" where
  "print m w = w\<lparr>trace := trace w @ [Print m]\<rparr>"

definition run :: "string list \<Rightarrow> world \<Rightarrow> world" where
  "run argv w = w\<lparr>trace := trace w @ [Run argv]\<rparr>"

definition isfile :: "world \<Rightarrow> string \<Rightarrow> bool" where
  "isfile w p \<longleftrightarrow> files w p \<noteq> None"

definition exists :: "env \<Rightarrow> world \<Rightarrow> string \<Rightarrow> bool" where
  "exists e w p \<longleftrightarrow> isfile w p \<or> isdir e p"

definition path_join :: "string \<Rightarrow> string \<Rightarrow> string" where
  "path_join a b = a @ [BSL] @ b"

definition read_utf16 :: "world \<Rightarrow> string \<Rightarrow> string option" where
  "read_utf16 w p = Option.bind (files w p) as_utf16"

definition read_utf8 :: "world \<Rightarrow> string \<Rightarrow> string option" where
  "read_utf8 w p = Option.bind (files w p) as_utf8"

text \<open>\<open>open(p, "w", encoding="utf-16")\<close> and \<open>f.write(text)\<close>.\<close>

definition text_file :: "string \<Rightarrow> disk_file" where
  "text_file text = \<lparr>as_utf16 = Some text, as_utf8 = None, as_hive = None\<rparr>"

definition write_utf16 :: "string \<Rightarrow> string \<Rightarrow> world \<Rightarrow> world" where
  "write_utf16 p text w =
     w\<lparr>files := (files w)(p \<mapsto> text_file text), trace := trace w @ [WriteText p text]\<rparr>"

definition remove :: "string \<Rightarrow> world \<Rightarrow> world" where
  "remove p w = w\<lparr>files := (files w)(p := None), trace := trace w @ [Remove p]\<rparr>"

subsection \<open>The registry commands\<close>

definition hive_tree :: "world \<Rightarrow> string \<Rightarrow> reg_tree option" where
  "hive_tree w mount_name =
     Option.bind (mounted w mount_name) (\<lambda>p. Option.bind (files w p) as_hive)"

definition lookup_key :: "world \<Rightarrow> root \<Rightarrow> string \<Rightarrow> reg_key option" where
  "lookup_key w r rel =
     (case r of HKCU \<Rightarrow> hkcu w rel
      | HKU mount_name \<Rightarrow> Option.bind (hive_tree w mount_name) (\<lambda>t. t rel))"

fun root_name :: "root \<Rightarrow> string" where
  "root_name HKCU = ''HKCU''"
| "root_name (HKU mount_name) = ''HKU'' @ [BSL] @ mount_name"

text \<open>
  \<open>reg export key file /y\<close>, \<open>reg import file\<close>, \<open>reg load HKU\name hive\<close> and
  \<open>reg unload HKU\name\<close>, all run with \<open>check=True\<close>: the first component is
  \<open>False\<close> when the command exits with an error, that is, when \<open>subprocess.run\<close> raises
  \<open>CalledProcessError\<close>.
\<close>

definition reg_export :: "env \<Rightarrow> root \<Rightarrow> string \<Rightarrow> string \<Rightarrow> world \<Rightarrow> bool \<times> world" where
  "reg_export e r rel file w =
     (let full_key = root_name r @ [BSL] @ rel;
          w1 = run [''reg'', ''export'', full_key, file, ''/y''] w
      in case lookup_key w r rel of
           None \<Rightarrow> (False, w1)
         | Some k \<Rightarrow> (True, w1\<lparr>files := (files w1)(file \<mapsto> text_file (reg_text e full_key k))\<rparr>))"

definition reg_import :: "env \<Rightarrow> string \<Rightarrow> world \<Rightarrow> bool \<times> world" where
  "reg_import e file w =
     (let w1 = run [''reg'', ''import'', file] w
      in case Option.bind (read_utf16 w file) (\<lambda>text. reg_merge e text (hkcu w)) of
           None \<Rightarrow> (False, w1)
         | Some t \<Rightarrow> (True, w1\<lparr>hkcu := t\<rparr>))"

definition reg_load :: "string \<Rightarrow> string \<Rightarrow> world \<Rightarrow> bool \<times> world" where
  "reg_load hive_path mount_name w =
     (let w1 = run [''reg'', ''load'', ''HKU'' @ [BSL] @ mount_name, hive_path] w
      in if mounted w mount_name = None \<and> Option.bind (files w hive_path) as_hive \<noteq> None
         then (True, w1\<lparr>mounted := (mounted w1)(mount_name \<mapsto> hive_path)\<rparr>)
         else (False, w1))"

definition reg_unload :: "env \<Rightarrow> string \<Rightarrow> world \<Rightarrow> bool \<times> world" where
  "reg_unload e mount_name w =
     (let w1 = run [''reg'', ''unload'', ''HKU'' @ [BSL] @ mount_name] w
      in case mounted w mount_name of
           None \<Rightarrow> (False, w1)
         | Some p \<Rightarrow>
             if unload_fails e p then (False, w1)
             else (True, w1\<lparr>mounted := (mounted w1)(mount_name := None)\<rparr>))"

subsection \<open>\<open>winreg\<close>\<close>

text \<open>
  \<open>OpenKey(HKEY_USERS, name\rel, 0, KEY_ALL_ACCESS)\<close> returns a handle, here the hive
  file and the key path; \<open>QueryValueEx\<close> and \<open>SetValueEx\<close> work through the handle.
\<close>

definition OpenKey :: "env \<Rightarrow> world \<Rightarrow> string \<Rightarrow> string \<Rightarrow> (string \<times> string) result" where
  "OpenKey e w mount_name rel =
     (case mounted w mount_name of
        None \<Rightarrow> Raise FileNotFoundError
      | Some p \<Rightarrow>
          (case lookup_key w (HKU mount_name) rel of
             None \<Rightarrow> Raise FileNotFoundError
           | Some k \<Rightarrow> if access_denied e p then Raise PermissionError else Return (p, rel)))"

definition QueryValueEx :: "world \<Rightarrow> string \<times> string \<Rightarrow> string \<Rightarrow> reg_value result" where
  "QueryValueEx w key name =
     (case Option.bind (Option.bind (files w (fst key)) as_hive) (\<lambda>t. t (snd key)) of
        None \<Rightarrow> Raise FileNotFoundError
      | Some k \<Rightarrow> (case k name of None \<Rightarrow> Raise FileNotFoundError | Some v \<Rightarrow> Return v))"

definition set_value :: "string \<times> string \<Rightarrow> string \<Rightarrow> reg_value \<Rightarrow> world \<Rightarrow> world" where
  "set_value key name v w =
     (case files w (fst key) of
        None \<Rightarrow> w
      | Some f \<Rightarrow>
          (case as_hive f of
             None \<Rightarrow> w
           | Some t \<Rightarrow>
               (case t (snd key) of
                  None \<Rightarrow> w
                | Some k \<Rightarrow>
                    w\<lparr>files := (files w)(fst key \<mapsto> f\<lparr>as_hive := Some (t(snd key \<mapsto> k(name \<mapsto> v)))\<rparr>)\<rparr>)))"

definition SetValueEx_call ::
    "env \<Rightarrow> string \<times> string \<Rightarrow> string \<Rightarrow> nat \<Rightarrow> string \<Rightarrow> world \<Rightarrow> unit result \<times> world" where
  "SetValueEx_call e key name vtype val w =
     (let w1 = w\<lparr>trace := trace w @ [SetValueEx (snd key) name vtype val]\<rparr>
      in if write_fails e (fst key) then (Raise OSError, w1)
         else (Return (), set_value key name (val, vtype) w1))"

section \<open>The functions of the script\<close>

definition OUTPUT_REG_FILE :: string where
  "OUTPUT_REG_FILE = ''BleachBraveSouls_from_VSS_PostUpdate_Fix.reg''"

definition LIVE_BACKUP_FILE :: string where
  "LIVE_BACKUP_FILE = ''BleachBraveSouls_PostUpdate_Original.reg''"

definition SNAPSHOT_EXPORT_FILE :: string where
  "SNAPSHOT_EXPORT_FILE = ''BleachBraveSouls_FromVSS.reg''"

definition REGFILE_OUTPUT_FILE :: string where
  "REGFILE_OUTPUT_FILE = ''BleachBraveSouls_from_REGBackup_File_PostUpdate_Fix.reg''"

definition is_admin :: "env \<Rightarrow> bool" where
  "is_admin e = (case IsUserAnAdmin e of None \<Rightarrow> False | Some r \<Rightarrow> r \<noteq> 0)"

definition get_user_sid :: "env \<Rightarrow> world \<Rightarrow> string result \<times> world" where
  "get_user_sid e w =
     (let w1 = run [''whoami'', ''/user''] w
      in case whoami_sid e of None \<Rightarrow> (Raise RuntimeError, w1) | Some sid \<Rightarrow> (Return sid, w1))"

definition backup_live_hkcu_key :: "env \<Rightarrow> world \<Rightarrow> world" where
  "backup_live_hkcu_key e w =
     (case reg_export e HKCU TARGET_REL_PATH LIVE_BACKUP_FILE w of
        (True, w1) \<Rightarrow> print (LiveKeyBackedUp LIVE_BACKUP_FILE) w1
      | (False, w1) \<Rightarrow> print (FailedToBackupLiveKey CalledProcessError) w1)"

subsection \<open>\<open>process_regfile\<close>\<close>

text \<open>The two attempts to read the file: UTF-16 first, UTF-8 when that raises.\<close>

definition read_regfile :: "string \<Rightarrow> world \<Rightarrow> string result \<times> world" where
  "read_regfile regfile_path w =
     (case read_utf16 w regfile_path of
        Some data \<Rightarrow> (Return data, w)
      | None \<Rightarrow>
          (let w1 = print (FailedToReadAsUtf16 regfile_path) w
           in case read_utf8 w1 regfile_path of
                Some data \<Rightarrow> (Return data, w1)
              | None \<Rightarrow> (Raise UnicodeError, w1)))"

definition process_regfile :: "env \<Rightarrow> string \<Rightarrow> world \<Rightarrow> bool result \<times> world" where
  "process_regfile e regfile_path w =
     (if \<not> isfile w regfile_path then (Return False, print (RegFileDoesNotExist regfile_path) w)
      else
        (case read_regfile regfile_path w of
           (Raise x, w1) \<Rightarrow> (Raise x, w1)
         | (Return data, w1) \<Rightarrow>
             (let target_key_line = ''[HKEY_CURRENT_USER'' @ [BSL] @ TARGET_REL_PATH @ '']''
              in if \<not> contains target_key_line data
                 then (Return False, print (KeyLineNotFound target_key_line regfile_path) w1)
                 else
                   (let w2 = backup_live_hkcu_key e w1;
                        data_fixed = replace OLD_VALUE_NAME NEW_VALUE_NAME data;
                        output_file = REGFILE_OUTPUT_FILE;
                        w3 = write_utf16 output_file data_fixed w2;
                        w4 = print (FixedRegExported output_file) w3
                    in if \<not> SIMULATION_MODE w4 then
                         (case reg_import e output_file w4 of
                            (True, w5) \<Rightarrow> (Return True, print (MergedRegIntoLive output_file) w5)
                          | (False, w5) \<Rightarrow>
                              (Return True, print (FailedToMerge CalledProcessError) w5))
                       else (Return True, w4)))))"

subsection \<open>Restore points\<close>

definition find_restore_point_snapshot_dirs :: "env \<Rightarrow> (string \<times> string) list" where
  "find_restore_point_snapshot_dirs e =
     concat (map (\<lambda>rp_dir.
        if isdir e rp_dir then
          (let snapshot_dir = path_join rp_dir ''snapshot''
           in if isdir e snapshot_dir then [(rp_dir, snapshot_dir)] else [])
        else []) (glob_rp e))"

definition rp_is_before_cutoff :: "env \<Rightarrow> string \<Rightarrow> world \<Rightarrow> bool \<times> world" where
  "rp_is_before_cutoff e rp_dir w =
     (let mtime = getmtime e rp_dir;
          rp_dt = fromtimestamp_utc mtime
      in if rp_dt \<ge> CUTOFF_DATETIME
         then (False, print (SkippingRestorePoint rp_dir rp_dt CUTOFF_DATETIME) w)
         else (True, w))"

text \<open>
  \<open>sorted(rp_list, key=..., reverse=True)\<close>: descending by the key, and stable, that is,
  ascending and stable by the negated key.
\<close>

definition sort_rps_newest_first :: "env \<Rightarrow> (string \<times> string) list \<Rightarrow> (string \<times> string) list" where
  "sort_rps_newest_first e rp_list = sort_key (\<lambda>t. - getmtime e (fst t)) rp_list"

text \<open>\<open>str.lower\<close> on one code point below 256.\<close>

definition lower_char :: "char \<Rightarrow> char" where
  "lower_char c =
     (let n = (of_char c :: nat)
      in if (65 \<le> n \<and> n \<le> 90) \<or> (192 \<le> n \<and> n \<le> 222 \<and> n \<noteq> 215) then char_of (n + 32) else c)"

definition lower :: "string \<Rightarrow> string" where
  "lower s = map lower_char s"

fun find_user_hive_loop :: "world \<Rightarrow> string \<Rightarrow> string \<Rightarrow> string list \<Rightarrow> string option" where
  "find_user_hive_loop w snapshot_dir sid [] = None"
| "find_user_hive_loop w snapshot_dir sid (entry # entries) =
     (if contains (lower sid) (lower entry) \<and> isfile w (path_join snapshot_dir entry)
      then Some (path_join snapshot_dir entry)
      else find_user_hive_loop w snapshot_dir sid entries)"

definition find_user_hive_in_snapshot :: "env \<Rightarrow> world \<Rightarrow> string \<Rightarrow> string \<Rightarrow> string option" where
  "find_user_hive_in_snapshot e w snapshot_dir sid =
     find_user_hive_loop w snapshot_dir sid (listdir e snapshot_dir)"

subsection \<open>\<open>list_vss_snapshots_before_cutoff\<close>\<close>

text \<open>
  The dictionary \<open>current\<close>: a key that is absent is \<open>None\<close>; the key \<open>ctime\<close>, when
  present, holds a datetime or Python's \<open>None\<close>.
\<close>

record current =
  cur_id :: "string option"
  cur_ctime :: "datetime option option"
  cur_path :: "string option"

definition empty_current :: current where
  "empty_current = \<lparr>cur_id = None, cur_ctime = None, cur_path = None\<rparr>"

text \<open>\<open>strptime\<close> and then \<open>astimezone\<close>, inside the \<open>try\<close>.\<close>

definition parse_creation_time :: "env \<Rightarrow> string \<Rightarrow> datetime result" where
  "parse_creation_time e date_str =
     (case strptime e date_str of
        None \<Rightarrow> Raise ValueError
      | Some local_time \<Rightarrow>
          (case local_to_utc e local_time of None \<Rightarrow> Raise OSError | Some t \<Rightarrow> Return t))"

text \<open>
  One turn of the \<open>for line in result.stdout.splitlines()\<close> loop, on the variables
  \<open>current\<close> and \<open>shadows\<close> and the world.
\<close>

definition vss_line_step ::
    "env \<Rightarrow> string \<Rightarrow> current \<times> string list \<times> world \<Rightarrow> current \<times> string list \<times> world" where
  "vss_line_step e raw st =
     (case st of (current, shadows, w) \<Rightarrow>
      (let line = strip raw
       in if startswith line ''Shadow Copy ID:'' then
            (current\<lparr>cur_id := Some (strip (last (split '':'' line)))\<rparr>, shadows, w)
          else if contains ''at creation time:'' line then
            (let date_str = strip (last (split ''at creation time:'' line))
             in case parse_creation_time e date_str of
                  Return local_time \<Rightarrow> (current\<lparr>cur_ctime := Some (Some local_time)\<rparr>, shadows, w)
                | Raise x \<Rightarrow>
                    (current\<lparr>cur_ctime := Some None\<rparr>, shadows,
                     print (CouldNotParseVssTime date_str x) w))
          else if startswith line ''Shadow Copy Volume:'' then
            (let path = strip (last (split '':'' line))
             in case cur_ctime current of
                  Some (Some ctime) \<Rightarrow>
                    (let before_cutoff = (ctime < CUTOFF_DATETIME);
                         w1 = print (DebugVss path ctime before_cutoff) w
                     in if before_cutoff then (empty_current, shadows @ [path], w1)
                        else (empty_current, shadows, w1))
                | _ \<Rightarrow> (empty_current, shadows, w))
          else (current, shadows, w)))"

fun vss_lines_loop ::
    "env \<Rightarrow> string list \<Rightarrow> current \<times> string list \<times> world \<Rightarrow> current \<times> string list \<times> world" where
  "vss_lines_loop e [] st = st"
| "vss_lines_loop e (raw # rest) st = vss_lines_loop e rest (vss_line_step e raw st)"

definition list_vss_snapshots_before_cutoff :: "env \<Rightarrow> world \<Rightarrow> string list \<times> world" where
  "list_vss_snapshots_before_cutoff e w =
     (let w1 = run [''vssadmin'', ''list'', ''shadows''] w;
          (current, shadows, w2) =
             vss_lines_loop e (splitlines (vssadmin_stdout e)) (empty_current, [], w1)
      in if shadows = [] then (shadows, print NoValidVssSnapshots w2) else (shadows, w2))"

subsection \<open>\<open>modify_hive_value\<close> and \<open>export_and_save\<close>\<close>

text \<open>The body of the \<open>try\<close> of \<open>modify_hive_value\<close>, and the function with its handlers.\<close>

definition modify_hive_value_try :: "env \<Rightarrow> string \<Rightarrow> world \<Rightarrow> bool result \<times> world" where
  "modify_hive_value_try e hive_mount_name w =
     (case OpenKey e w hive_mount_name TARGET_REL_PATH of
        Raise x \<Rightarrow> (Raise x, w)
      | Return key \<Rightarrow>
          (case QueryValueEx w key OLD_VALUE_NAME of
             Raise x \<Rightarrow> (Raise x, w)
           | Return (val, vtype) \<Rightarrow>
               if \<not> SIMULATION_MODE w then
                 (case SetValueEx_call e key NEW_VALUE_NAME vtype val w of
                    (Raise x, w1) \<Rightarrow> (Raise x, w1)
                  | (Return u, w1) \<Rightarrow> (Return True, w1))
               else (Return True, w)))"

definition modify_hive_value :: "env \<Rightarrow> string \<Rightarrow> world \<Rightarrow> bool \<times> world" where
  "modify_hive_value e hive_mount_name w =
     (case modify_hive_value_try e hive_mount_name w of
        (Return b, w1) \<Rightarrow> (b, w1)
      | (Raise x, w1) \<Rightarrow>
          if x = FileNotFoundError then (False, w1)
          else (False, print (ErrorModifyingHive x) w1))"

definition export_and_save :: "env \<Rightarrow> string \<Rightarrow> world \<Rightarrow> bool \<times> world" where
  "export_and_save e hive_mount_name w =
     (case reg_export e (HKU hive_mount_name) TARGET_REL_PATH SNAPSHOT_EXPORT_FILE w of
        (False, w1) \<Rightarrow> (False, print (FailedToExportHive CalledProcessError) w1)
      | (True, w1) \<Rightarrow>
          (case read_utf16 w1 SNAPSHOT_EXPORT_FILE of
             None \<Rightarrow> (False, print (ErrorCreatingFixedExport UnicodeError) w1)
           | Some data \<Rightarrow>
               (let data_fixed = fix_export_text hive_mount_name data;
                    w2 = write_utf16 OUTPUT_REG_FILE data_fixed w1;
                    w3 = print (FixedRegFileCreated OUTPUT_REG_FILE) w2
                in if \<not> SIMULATION_MODE w3 then
                     (case reg_import e OUTPUT_REG_FILE w3 of
                        (False, w4) \<Rightarrow>
                          (False, print (ErrorCreatingFixedExport CalledProcessError) w4)
                      | (True, w4) \<Rightarrow> (True, print (MergedKeyIntoLive OUTPUT_REG_FILE) w4))
                   else (True, w3))))"

subsection \<open>\<open>search_old_restore_points\<close>\<close>

text \<open>The list comprehension \<open>[t for t in rps if rp_is_before_cutoff(t[0])]\<close>.\<close>

fun filter_rps ::
    "env \<Rightarrow> (string \<times> string) list \<Rightarrow> world \<Rightarrow> (string \<times> string) list \<times> world" where
  "filter_rps e [] w = ([], w)"
| "filter_rps e (t # rps) w =
     (case rp_is_before_cutoff e (fst t) w of
        (True, w1) \<Rightarrow> (case filter_rps e rps w1 of (ts, w2) \<Rightarrow> (t # ts, w2))
      | (False, w1) \<Rightarrow> filter_rps e rps w1)"

text \<open>
  The body of the \<open>try\<close> for one restore point: \<open>Return True\<close> is the \<open>return True\<close>
  of the source, \<open>Return False\<close> the end of the body, and \<open>Raise\<close> an exception, which
  the bare \<open>except\<close> catches.
\<close>

definition rp_try :: "env \<Rightarrow> string \<Rightarrow> world \<Rightarrow> bool result \<times> world" where
  "rp_try e hive_file w =
     (case reg_load hive_file TEMP_MOUNT_NAME w of
        (False, w1) \<Rightarrow> (Raise CalledProcessError, w1)
      | (True, w1) \<Rightarrow>
          (case modify_hive_value e TEMP_MOUNT_NAME w1 of
             (True, w2) \<Rightarrow>
               (let w3 = snd (export_and_save e TEMP_MOUNT_NAME w2)
                in case reg_unload e TEMP_MOUNT_NAME w3 of
                     (False, w4) \<Rightarrow> (Raise CalledProcessError, w4)
                   | (True, w4) \<Rightarrow> (Return True, w4))
           | (False, w2) \<Rightarrow>
               (case reg_unload e TEMP_MOUNT_NAME w2 of
                  (False, w3) \<Rightarrow> (Raise CalledProcessError, w3)
                | (True, w3) \<Rightarrow> (Return False, w3))))"

text \<open>
  One turn of the \<open>for rp_dir, snapshot_dir in rps_sorted\<close> loop: \<open>True\<close> when the
  function returns \<open>True\<close> in this turn, \<open>False\<close> when the loop goes on.
\<close>

definition rp_step :: "env \<Rightarrow> string \<Rightarrow> string \<times> string \<Rightarrow> world \<Rightarrow> bool \<times> world" where
  "rp_step e sid t w =
     (case find_user_hive_in_snapshot e w (snd t) sid of
        None \<Rightarrow> (False, w)
      | Some hive_file \<Rightarrow>
          (case rp_try e hive_file w of
             (Return b, w1) \<Rightarrow> (b, w1)
           | (Raise x, w1) \<Rightarrow> (False, snd (reg_unload e TEMP_MOUNT_NAME w1))))"

fun rp_loop :: "env \<Rightarrow> string \<Rightarrow> (string \<times> string) list \<Rightarrow> world \<Rightarrow> bool \<times> world" where
  "rp_loop e sid [] w = (False, w)"
| "rp_loop e sid (t # rest) w =
     (case rp_step e sid t w of
        (True, w1) \<Rightarrow> (True, w1)
      | (False, w1) \<Rightarrow> rp_loop e sid rest w1)"

definition search_old_restore_points :: "env \<Rightarrow> string \<Rightarrow> world \<Rightarrow> bool \<times> world" where
  "search_old_restore_points e sid w =
     (let rps = find_restore_point_snapshot_dirs e;
          (rps_filtered, w1) = filter_rps e rps w;
          rps_sorted = sort_rps_newest_first e rps_filtered
      in if rps_sorted = [] then (False, print NoRestorePointsBeforeCutoff w1)
         else
           (case rp_loop e sid rps_sorted w1 of
              (True, w2) \<Rightarrow> (True, w2)
            | (False, w2) \<Rightarrow> (False, print NoSuitableRestorePoint w2)))"

subsection \<open>\<open>search_vss_snapshots\<close>\<close>

text \<open>
  The body of the \<open>try\<close> for one shadow copy, on the variable \<open>found\<close>: it returns the
  new \<open>found\<close> and whether the loop breaks, or the exception with the \<open>found\<close> it left.
\<close>

definition vss_try :: "env \<Rightarrow> string \<Rightarrow> bool \<Rightarrow> world \<Rightarrow> (bool \<times> bool result) \<times> world" where
  "vss_try e ntuser_path found w =
     (case reg_load ntuser_path TEMP_MOUNT_NAME w of
        (False, w1) \<Rightarrow> ((found, Raise CalledProcessError), w1)
      | (True, w1) \<Rightarrow>
          (case (case modify_hive_value e TEMP_MOUNT_NAME w1 of
                   (True, w2) \<Rightarrow> (True, snd (export_and_save e TEMP_MOUNT_NAME w2))
                 | (False, w2) \<Rightarrow> (found, w2)) of
             (found1, w3) \<Rightarrow>
               (case reg_unload e TEMP_MOUNT_NAME w3 of
                  (False, w4) \<Rightarrow> ((found1, Raise CalledProcessError), w4)
                | (True, w4) \<Rightarrow> ((found1, Return found1), w4))))"

text \<open>
  The \<open>for shadow in shadows\<close> loop; \<open>os.path.join\<close> raises \<open>TypeError\<close> when
  \<open>USERNAME\<close> is not set.
\<close>

fun vss_loop :: "env \<Rightarrow> string option \<Rightarrow> string list \<Rightarrow> bool \<Rightarrow> world \<Rightarrow> bool result \<times> world" where
  "vss_loop e username [] found w = (Return found, w)"
| "vss_loop e username (shadow # rest) found w =
     (case username of
        None \<Rightarrow> (Raise TypeError, w)
      | Some u \<Rightarrow>
          (let ntuser_path = path_join (path_join (path_join shadow ''Users'') u) ''NTUSER.DAT''
           in if exists e w ntuser_path then
                (case vss_try e ntuser_path found (print (FoundCandidateNtuser ntuser_path) w) of
                   ((found1, Return True), w1) \<Rightarrow> (Return found1, w1)
                 | ((found1, Return False), w1) \<Rightarrow> vss_loop e username rest found1 w1
                 | ((found1, Raise x), w1) \<Rightarrow>
                     vss_loop e username rest found1
                       (snd (reg_unload e TEMP_MOUNT_NAME (print (ErrorAccessingSnapshot shadow x) w1))))
              else vss_loop e username rest found w))"

definition search_vss_snapshots :: "env \<Rightarrow> world \<Rightarrow> bool result \<times> world" where
  "search_vss_snapshots e w =
     (case list_vss_snapshots_before_cutoff e w of
        (shadows, w1) \<Rightarrow>
          if shadows = [] then (Return False, w1)
          else
            (case vss_loop e (USERNAME e) shadows False w1 of
               (Raise x, w2) \<Rightarrow> (Raise x, w2)
             | (Return found, w2) \<Rightarrow>
                 if \<not> found then (Return found, print NoSuitableVssSnapshot w2)
                 else (Return found, w2)))"

subsection \<open>\<open>main\<close>\<close>

text \<open>The parsed command line: \<open>--mode\<close> is one of two choices, \<open>--regfile\<close> is optional.\<close>

datatype mode_choice = simulation | live

record args =
  arg_mode :: mode_choice
  arg_regfile :: "string option"

fun remove_leftovers :: "string list \<Rightarrow> world \<Rightarrow> world" where
  "remove_leftovers [] w = w"
| "remove_leftovers (f # fs) w =
     remove_leftovers fs (if isfile w f then remove f w else w)"

text \<open>
  The last part of \<open>main\<close>, from \<open>backup_live_hkcu_key()\<close> on: the search in the restore
  points, then in the shadow copies, then the report.
\<close>

definition main_search :: "env \<Rightarrow> string \<Rightarrow> world \<Rightarrow> unit result \<times> world" where
  "main_search e sid w =
     (let w1 = backup_live_hkcu_key e w
      in case search_old_restore_points e sid w1 of
           (found, w2) \<Rightarrow>
             (case (if \<not> found then search_vss_snapshots e w2 else (Return found, w2)) of
                (Raise x, w3) \<Rightarrow> (Raise x, w3)
              | (Return found1, w3) \<Rightarrow>
                  if \<not> found1 then (Return (), print KeyNotFoundAnywhere w3)
                  else (Return (), w3)))"

definition main :: "env \<Rightarrow> args \<Rightarrow> world \<Rightarrow> unit result \<times> world" where
  "main e a w =
     (if os_name e \<noteq> ''nt'' then (Return (), print IntendedForWindows w)
      else if \<not> is_admin e then (Return (), print RunAsAdministrator w)
      else
        (let w1 = remove_leftovers [SNAPSHOT_EXPORT_FILE, OUTPUT_REG_FILE] w;
             w2 = (if arg_mode a = live then w1\<lparr>SIMULATION_MODE := False\<rparr> else w1);
             w3 = print (RunningInMode (\<not> SIMULATION_MODE w2)) w2
         in case get_user_sid e w3 of
              (Raise x, w4) \<Rightarrow> (Return (), print (ErrorMessage x) w4)
            | (Return sid, w4) \<Rightarrow>
                (case (case arg_regfile a of
                         None \<Rightarrow> (Return False, w4)
                       | Some regfile \<Rightarrow>
                           if regfile = [] then (Return False, w4)
                           else process_regfile e regfile w4) of
                   (Raise x, w5) \<Rightarrow> (Raise x, w5)
                 | (Return True, w5) \<Rightarrow> (Return (), w5)
                 | (Return False, w5) \<Rightarrow> main_search e sid w5)))"

section \<open>Example machines\<close>

text \<open>
  A bare machine and an empty world, from which the examples below are made by
  updating fields.
\<close>

definition bare_env :: env where
  "bare_env =
     \<lparr>os_name = ''nt'', IsUserAnAdmin = Some 1, whoami_sid = Some ''S-1-5-21-7'',
      USERNAME = Some ''u'', glob_rp = [], isdir = (\<lambda>p. False), listdir = (\<lambda>p. []),
      getmtime = (\<lambda>p. 0), vssadmin_stdout = [], strptime = (\<lambda>s. None),
      local_to_utc = (\<lambda>t. None), reg_text = (\<lambda>key k. []), reg_merge = (\<lambda>text t. None),
      access_denied = (\<lambda>p. False), write_fails = (\<lambda>p. False), unload_fails = (\<lambda>p. False)\<rparr>"

definition empty_world :: world where
  "empty_world =
     \<lparr>SIMULATION_MODE = True, files = Map.empty, hkcu = Map.empty, mounted = Map.empty,
      trace = []\<rparr>"

definition default_args :: args where
  "default_args = \<lparr>arg_mode = simulation, arg_regfile = None\<rparr>"


section \<open>Notions used to state the properties\<close>

text \<open>
  The old value as \<open>modify_hive_value\<close> reads it: the handle and the value when both
  \<open>OpenKey\<close> and \<open>QueryValueEx\<close> return, \<open>None\<close> when either raises.
\<close>

definition old_value_read :: "env \<Rightarrow> string \<Rightarrow> world \<Rightarrow> ((string \<times> string) \<times> reg_value) option" where
  "old_value_read e hive_mount_name w =
     (case OpenKey e w hive_mount_name TARGET_REL_PATH of
        Raise x \<Rightarrow> None
      | Return key \<Rightarrow>
          (case QueryValueEx w key OLD_VALUE_NAME of Raise x \<Rightarrow> None | Return v \<Rightarrow> Some (key, v)))"

text \<open>
  The effects allowed in simulation mode: console output, \<open>reg export\<close> into one of the
  two backup files, and writing one of the two generated files.
\<close>

fun backup_or_generated :: "event \<Rightarrow> bool" where
  "backup_or_generated (Print m) = True"
| "backup_or_generated (Run argv) =
     (case argv of
        [a, b, key, f, y] \<Rightarrow>
          a = ''reg'' \<and> b = ''export'' \<and> y = ''/y'' \<and>
          (f = LIVE_BACKUP_FILE \<or> f = SNAPSHOT_EXPORT_FILE)
      | _ \<Rightarrow> False)"
| "backup_or_generated (WriteText f text) = (f = OUTPUT_REG_FILE \<or> f = REGFILE_OUTPUT_FILE)"
| "backup_or_generated (SetValueEx key name vtype val) = False"
| "backup_or_generated (Remove f) = False"

text \<open>
  \<open>sim_frame w w'\<close>: from \<open>w\<close> to \<open>w'\<close> the live key tree, the loaded hives and the mode
  are unchanged, every file other than the two backups and the two generated files is
  unchanged (the hive files among them), and the trace has grown by allowed effects only.
\<close>

definition sim_frame :: "world \<Rightarrow> world \<Rightarrow> bool" where
  "sim_frame w w' \<longleftrightarrow>
     hkcu w' = hkcu w \<and> mounted w' = mounted w \<and> SIMULATION_MODE w' = SIMULATION_MODE w \<and>
     (\<forall>p. p \<notin> set [LIVE_BACKUP_FILE, SNAPSHOT_EXPORT_FILE, OUTPUT_REG_FILE, REGFILE_OUTPUT_FILE]
          \<longrightarrow> files w' p = files w p) \<and>
     (\<exists>evs. trace w' = trace w @ evs \<and> list_all backup_or_generated evs)"

section \<open>Further example machines\<close>

text \<open>A hive file that holds the old value, and a world in which it is loaded.\<close>

definition old_value_hive :: disk_file where
  "old_value_hive =
     \<lparr>as_utf16 = None, as_utf8 = None,
      as_hive = Some [TARGET_REL_PATH \<mapsto> [OLD_VALUE_NAME \<mapsto> (''token'', 3)]]\<rparr>"

definition mounted_world :: world where
  "mounted_world =
     empty_world\<lparr>files := [''hive'' \<mapsto> old_value_hive], mounted := [TEMP_MOUNT_NAME \<mapsto> ''hive'']\<rparr>"

text \<open>A world with a \<open>.reg\<close> file that holds the key line and the old value.\<close>

definition regfile_world :: world where
  "regfile_world =
     empty_world\<lparr>files :=
       [''in.reg'' \<mapsto> text_file (hkcu_header @ [LF, DQ] @ OLD_VALUE_NAME @ [DQ] @ ''=dword:1'')]\<rparr>"

text \<open>A machine on which \<open>SetValueEx\<close> fails, and the loaded hive in live mode.\<close>

definition write_failing_env :: env where
  "write_failing_env = bare_env\<lparr>write_fails := (\<lambda>p. True)\<rparr>"

definition live_mounted_world :: world where
  "live_mounted_world = mounted_world\<lparr>SIMULATION_MODE := False\<rparr>"

text \<open>
  An export of the loaded key as \<open>reg export\<close> writes it, with the old value as binary
  data that runs over two lines, and the lines of that value alone.
\<close>

definition old_value_first_line :: string where
  "old_value_first_line = [DQ] @ OLD_VALUE_NAME @ [DQ] @ ''=hex:aa,bb,'' @ [BSL]"

definition new_value_first_line :: string where
  "new_value_first_line = [DQ] @ NEW_VALUE_NAME @ [DQ] @ ''=hex:aa,bb,'' @ [BSL]"

definition multiline_export :: string where
  "multiline_export =
     ''Windows Registry Editor Version 5.00'' @ [LF, LF] @
     hive_header TEMP_MOUNT_NAME @ [LF] @
     old_value_first_line @ [LF] @
     ''  cc,dd'' @ [LF]"

text \<open>A machine whose \<open>reg export\<close> writes that text.\<close>

definition export_env :: env where
  "export_env = bare_env\<lparr>reg_text := (\<lambda>key k. multiline_export)\<rparr>"

text \<open>A string without line boundaries is a single line for \<open>splitlines\<close>.\<close>

definition no_boundary :: "string \<Rightarrow> bool" where
  "no_boundary s \<longleftrightarrow> (\<forall>c \<in> set s. \<not> is_line_boundary c)"

text \<open>
  The effects of backing up and of searching snapshots: console output other than the
  final report that the key was not found, \<open>reg\<close> commands, registry values set and
  files written. \<open>only_reg_work base w\<close>: the trace of \<open>w\<close> is \<open>base\<close> followed
  by such effects only.
\<close>

fun reg_work :: "event \<Rightarrow> bool" where
  "reg_work (Print m) = (m \<noteq> KeyNotFoundAnywhere)"
| "reg_work (Run argv) = (case argv of [] \<Rightarrow> False | a # as \<Rightarrow> a = ''reg'')"
| "reg_work (SetValueEx key name vtype val) = True"
| "reg_work (WriteText f text) = True"
| "reg_work (Remove f) = False"

definition only_reg_work :: "event list \<Rightarrow> world \<Rightarrow> bool" where
  "only_reg_work base w \<longleftrightarrow> (\<exists>evs. trace w = base @ evs \<and> list_all reg_work evs)"

text \<open>What a run has added to the trace.\<close>

definition new_events :: "world \<Rightarrow> world \<Rightarrow> event list" where
  "new_events w w' = drop (length (trace w)) (trace w')"


text \<open>
  A machine with two restore points from November 2023, \<open>RP2\<close> the newer one, each with
  the user's hive in its snapshot directory, and the world with those two hive files.
\<close>

definition restore_env :: env where
  "restore_env =
     bare_env\<lparr>glob_rp := [''RP1'', ''RP2''], isdir := (\<lambda>p. True),
       listdir := (\<lambda>p. [''_REGISTRY_USER_NTUSER_S-1-5-21-7'']),
       getmtime := (\<lambda>p. if p = ''RP1'' then 1700000000 else 1700000100)\<rparr>"

definition restore_world :: world where
  "restore_world =
     empty_world\<lparr>files :=
       [path_join (path_join ''RP1'' ''snapshot'') ''_REGISTRY_USER_NTUSER_S-1-5-21-7''
          \<mapsto> old_value_hive,
        path_join (path_join ''RP2'' ''snapshot'') ''_REGISTRY_USER_NTUSER_S-1-5-21-7''
          \<mapsto> old_value_hive]\<rparr>"



text \<open>
  The three kinds of line that \<open>list_vss_snapshots_before_cutoff\<close> tells apart, by the
  tests of its \<open>if\<close>/\<open>elif\<close> chain in their order, and what it takes from a line.
\<close>

definition is_id_line :: "string \<Rightarrow> bool" where
  "is_id_line raw \<longleftrightarrow> startswith (strip raw) ''Shadow Copy ID:''"

definition is_ctime_line :: "string \<Rightarrow> bool" where
  "is_ctime_line raw \<longleftrightarrow> \<not> is_id_line raw \<and> contains ''at creation time:'' (strip raw)"

definition is_volume_line :: "string \<Rightarrow> bool" where
  "is_volume_line raw \<longleftrightarrow>
     \<not> is_id_line raw \<and> \<not> contains ''at creation time:'' (strip raw) \<and>
     startswith (strip raw) ''Shadow Copy Volume:''"

definition date_of :: "string \<Rightarrow> string" where
  "date_of raw = strip (last (split ''at creation time:'' (strip raw)))"

definition path_of :: "string \<Rightarrow> string" where
  "path_of raw = strip (last (split '':'' (strip raw)))"

text \<open>
  The line that governs a volume line: the last line before it, among those that come
  before, that is a creation-time line or a volume line.
\<close>

definition governing_line :: "string list \<Rightarrow> string option" where
  "governing_line pre = find (\<lambda>x. is_ctime_line x \<or> is_volume_line x) (rev pre)"

text \<open>
  \<open>selected e ls p\<close>: among the lines \<open>ls\<close> there is a volume line with the path \<open>p\<close>
  whose governing line is a creation-time line, with a date that is parsed and converted
  to a UTC time strictly before the cutoff.
\<close>

definition selected :: "env \<Rightarrow> string list \<Rightarrow> string \<Rightarrow> bool" where
  "selected e ls p \<longleftrightarrow>
     (\<exists>pre v post l t. ls = pre @ v # post \<and> is_volume_line v \<and> path_of v = p \<and>
        governing_line pre = Some l \<and> is_ctime_line l \<and>
        parse_creation_time e (date_of l) = Return t \<and> t < CUTOFF_DATETIME)"

text \<open>
  A machine in the UTC time zone with one shadow copy, created on 1 October 2025, as
  \<open>vssadmin list shadows\<close> prints it.
\<close>

definition shadow_path :: string where
  "shadow_path =
     [BSL, BSL] @ ''?'' @ [BSL] @ ''GLOBALROOT'' @ [BSL] @ ''Device'' @ [BSL] @
     ''HarddiskVolumeShadowCopy1''"

definition vss_output :: string where
  "vss_output =
     ''Contents of shadow copy set ID: {a}'' @ [LF] @
     ''   Contained 1 shadow copies at creation time: 10/1/2025 12:11:45 PM'' @ [LF] @
     ''      Shadow Copy ID: {b}'' @ [LF] @
     ''         Shadow Copy Volume: '' @ shadow_path @ [LF]"

definition vss_env :: env where
  "vss_env =
     bare_env\<lparr>vssadmin_stdout := vss_output,
       strptime := (\<lambda>s. if s = ''10/1/2025 12:11:45 PM''
          then Some \<lparr>year = 2025, month = 10, day = 1, hour = 12, minute = 11, second = 45\<rparr>
          else None),
       local_to_utc := (\<lambda>t. Some (utc_datetime (year t) (month t) (day t) (hour t) (minute t)
          (second t)))\<rparr>"


section \<open>The early returns of \<open>main\<close>\<close>

text \<open>
  Claim C8. On a platform whose \<open>os.name\<close> is not \<open>nt\<close>, \<open>main\<close> prints the message that
  the script is intended for Windows and returns: the world it leaves is the one it found
  with that one line added to the trace, so no file is removed, no command is run and no
  registry value is set.
\<close>

theorem main_not_windows:
  "os_name e \<noteq> ''nt'' \<Longrightarrow>
     main e a w = (Return (), w\<lparr>trace := trace w @ [Print IntendedForWindows]\<rparr>)"
  by (simp add: main_def print_def)

theorem main_not_windows_witness:
  "os_name (bare_env\<lparr>os_name := ''posix''\<rparr>) \<noteq> ''nt'' \<and>
   main (bare_env\<lparr>os_name := ''posix''\<rparr>) default_args empty_world =
     (Return (), empty_world\<lparr>trace := [Print IntendedForWindows]\<rparr>)"
  using main_not_windows [of "bare_env\<lparr>os_name := ''posix''\<rparr>" default_args empty_world]
  by (simp add: bare_env_def empty_world_def)

text \<open>
  Claim C9. \<open>is_admin\<close> is true only when \<open>IsUserAnAdmin\<close> returns a non-zero value, so
  it is false when the call raises; and when it is false, \<open>main\<close> returns after printing
  one line, leaving everything else of the world as it found it: the leftover files are
  not removed, and nothing is backed up, searched or written.
\<close>

theorem main_not_admin:
  "(is_admin e \<longleftrightarrow> (\<exists>r. IsUserAnAdmin e = Some r \<and> r \<noteq> 0)) \<and>
   (\<not> is_admin e \<longrightarrow>
      main e a w =
        (Return (),
         w\<lparr>trace := trace w @
              [Print (if os_name e \<noteq> ''nt'' then IntendedForWindows else RunAsAdministrator)]\<rparr>))"
  by (auto simp: main_def print_def is_admin_def split: option.splits)

theorem main_not_admin_witness:
  "\<not> is_admin (bare_env\<lparr>IsUserAnAdmin := None\<rparr>) \<and>
   \<not> is_admin (bare_env\<lparr>IsUserAnAdmin := Some 0\<rparr>) \<and>
   main (bare_env\<lparr>IsUserAnAdmin := None\<rparr>) default_args empty_world =
     (Return (), empty_world\<lparr>trace := [Print RunAsAdministrator]\<rparr>)"
  using main_not_admin [of "bare_env\<lparr>IsUserAnAdmin := None\<rparr>" default_args empty_world]
        main_not_admin [of "bare_env\<lparr>IsUserAnAdmin := Some 0\<rparr>" default_args empty_world]
  by (simp add: bare_env_def empty_world_def)

section \<open>\<open>modify_hive_value\<close>\<close>

lemma OpenKey_cases:
  "OpenKey e w m rel =
     (case mounted w m of
        None \<Rightarrow> Raise FileNotFoundError
      | Some p \<Rightarrow>
          if lookup_key w (HKU m) rel = None then Raise FileNotFoundError
          else if access_denied e p then Raise PermissionError else Return (p, rel))"
  by (simp add: OpenKey_def split: option.splits)

lemma QueryValueEx_mounted:
  "mounted w m = Some p \<Longrightarrow>
   QueryValueEx w (p, rel) name =
     (case Option.bind (lookup_key w (HKU m) rel) (\<lambda>k. k name) of
        None \<Rightarrow> Raise FileNotFoundError
      | Some v \<Rightarrow> Return v)"
  by (simp add: QueryValueEx_def lookup_key_def hive_tree_def split: option.splits Option.bind_splits)

lemma lookup_key_unmounted:
  "mounted w m = None \<Longrightarrow> lookup_key w (HKU m) rel = None"
  by (simp add: lookup_key_def hive_tree_def)

lemma modify_hive_value_missing:
  assumes "Option.bind (lookup_key w (HKU m) TARGET_REL_PATH) (\<lambda>k. k OLD_VALUE_NAME) = None"
  shows "modify_hive_value e m w =
     (False,
      if OpenKey e w m TARGET_REL_PATH = Raise PermissionError
      then w\<lparr>trace := trace w @ [Print (ErrorModifyingHive PermissionError)]\<rparr> else w)"
proof (cases "mounted w m")
  case None
  then show ?thesis
    by (simp add: modify_hive_value_def modify_hive_value_try_def OpenKey_cases)
next
  case (Some p)
  show ?thesis
  proof (cases "lookup_key w (HKU m) TARGET_REL_PATH = None \<or> access_denied e p")
    case True
    with Some show ?thesis
      by (auto simp: modify_hive_value_def modify_hive_value_try_def OpenKey_cases print_def)
  next
    case False
    with Some assms show ?thesis
      by (simp add: modify_hive_value_def modify_hive_value_try_def OpenKey_cases
            QueryValueEx_mounted)
  qed
qed

lemma old_value_read_cases:
  "old_value_read e m w =
     (case mounted w m of
        None \<Rightarrow> None
      | Some p \<Rightarrow>
          if access_denied e p then None
          else map_option (\<lambda>v. ((p, TARGET_REL_PATH), v))
                 (Option.bind (lookup_key w (HKU m) TARGET_REL_PATH) (\<lambda>k. k OLD_VALUE_NAME)))"
  by (auto simp: old_value_read_def OpenKey_cases QueryValueEx_mounted
      split: option.splits Option.bind_splits)

lemma modify_hive_value_true_iff:
  "fst (modify_hive_value e m w) \<longleftrightarrow>
     (\<exists>key v. old_value_read e m w = Some (key, v) \<and> (SIMULATION_MODE w \<or> \<not> write_fails e (fst key)))"
proof (cases "old_value_read e m w")
  case None
  then show ?thesis
    by (auto simp: modify_hive_value_def modify_hive_value_try_def old_value_read_def
        split: result.splits)
next
  case (Some kv)
  obtain key val vtype where kv: "kv = (key, (val, vtype))" by (cases kv) auto
  from Some kv have o: "OpenKey e w m TARGET_REL_PATH = Return key"
    and q: "QueryValueEx w key OLD_VALUE_NAME = Return (val, vtype)"
    by (auto simp: old_value_read_def split: result.splits)
  show ?thesis using Some kv o q
    by (simp add: modify_hive_value_def modify_hive_value_try_def SetValueEx_call_def Let_def)
qed

text \<open>
  Claim C10, as stated, fails: on a machine where \<open>SetValueEx\<close> raises, in live mode,
  the old value is read successfully and \<open>modify_hive_value\<close> still returns \<open>False\<close>
  (the \<open>except Exception\<close> branch).
\<close>

theorem modify_hive_value_write_failure:
  "old_value_read write_failing_env TEMP_MOUNT_NAME live_mounted_world =
     Some ((''hive'', TARGET_REL_PATH), (''token'', 3)) \<and>
   fst (modify_hive_value write_failing_env TEMP_MOUNT_NAME live_mounted_world) = False"
  by (simp add: modify_hive_value_def modify_hive_value_try_def old_value_read_def
      SetValueEx_call_def Let_def OpenKey_def QueryValueEx_def lookup_key_def hive_tree_def
      live_mounted_world_def mounted_world_def empty_world_def write_failing_env_def
      bare_env_def old_value_hive_def print_def)

text \<open>
  Claim C10, amended. When the loaded hive lacks the key or the old value,
  \<open>modify_hive_value\<close> returns \<open>False\<close> and leaves the world as it is, but for one
  printed line in the case where \<open>OpenKey\<close> raised \<open>PermissionError\<close>; being a total
  function, it raises nothing. It returns \<open>True\<close> exactly when the old value was read
  and, in live mode, \<open>SetValueEx\<close> did not raise.
\<close>

theorem modify_hive_value_result:
  "(Option.bind (lookup_key w (HKU m) TARGET_REL_PATH) (\<lambda>k. k OLD_VALUE_NAME) = None \<longrightarrow>
      modify_hive_value e m w =
        (False,
         if OpenKey e w m TARGET_REL_PATH = Raise PermissionError
         then w\<lparr>trace := trace w @ [Print (ErrorModifyingHive PermissionError)]\<rparr> else w)) \<and>
   (fst (modify_hive_value e m w) \<longleftrightarrow>
      (\<exists>key v. old_value_read e m w = Some (key, v) \<and>
         (SIMULATION_MODE w \<or> \<not> write_fails e (fst key))))"
  using modify_hive_value_missing [of w m e] modify_hive_value_true_iff [of e m w] by blast

theorem modify_hive_value_result_witness:
  "modify_hive_value bare_env TEMP_MOUNT_NAME empty_world = (False, empty_world) \<and>
   fst (modify_hive_value bare_env TEMP_MOUNT_NAME mounted_world)"
  using modify_hive_value_result [of empty_world TEMP_MOUNT_NAME bare_env]
        modify_hive_value_result [of mounted_world TEMP_MOUNT_NAME bare_env]
  by (simp add: old_value_read_def OpenKey_def QueryValueEx_def lookup_key_def hive_tree_def
      mounted_world_def empty_world_def bare_env_def old_value_hive_def)


section \<open>Simulation mode\<close>

lemma sim_frame_refl: "sim_frame w w"
  by (simp add: sim_frame_def)

lemma sim_frame_trans: "sim_frame w w1 \<Longrightarrow> sim_frame w1 w2 \<Longrightarrow> sim_frame w w2"
proof -
  assume a: "sim_frame w w1" and b: "sim_frame w1 w2"
  from a obtain evs where e1: "trace w1 = trace w @ evs" "list_all backup_or_generated evs"
    by (auto simp: sim_frame_def)
  from b obtain evs' where e2: "trace w2 = trace w1 @ evs'" "list_all backup_or_generated evs'"
    by (auto simp: sim_frame_def)
  have "trace w2 = trace w @ (evs @ evs') \<and> list_all backup_or_generated (evs @ evs')"
    using e1 e2 by simp
  then have "\<exists>evs. trace w2 = trace w @ evs \<and> list_all backup_or_generated evs" by blast
  with a b show ?thesis by (simp add: sim_frame_def)
qed

lemma sim_frame_print: "sim_frame w (print m w)"
  by (simp add: sim_frame_def print_def)

lemma sim_frame_print': "sim_frame w w1 \<Longrightarrow> sim_frame w (print m w1)"
  by (rule sim_frame_trans [where ?w1.0 = w1], assumption, rule sim_frame_print)

lemma sim_frame_write:
  "f = OUTPUT_REG_FILE \<or> f = REGFILE_OUTPUT_FILE \<Longrightarrow> sim_frame w (write_utf16 f text w)"
  by (auto simp: sim_frame_def write_utf16_def)

lemma sim_frame_reg_export:
  "f = LIVE_BACKUP_FILE \<or> f = SNAPSHOT_EXPORT_FILE \<Longrightarrow> sim_frame w (snd (reg_export e r rel f w))"
  by (auto simp: sim_frame_def reg_export_def run_def Let_def split: option.splits)

lemma sim_frame_backup: "sim_frame w (backup_live_hkcu_key e w)"
proof -
  have "sim_frame w (snd (reg_export e HKCU TARGET_REL_PATH LIVE_BACKUP_FILE w))"
    by (simp add: sim_frame_reg_export)
  then show ?thesis
    by (auto simp: backup_live_hkcu_key_def split: prod.splits bool.splits intro: sim_frame_print')
qed

lemma sim_frame_write': 
  "f = OUTPUT_REG_FILE \<or> f = REGFILE_OUTPUT_FILE \<Longrightarrow> sim_frame w w1 \<Longrightarrow>
   sim_frame w (write_utf16 f text w1)"
  by (rule sim_frame_trans [where ?w1.0 = w1], assumption, rule sim_frame_write)

lemma sim_frame_backup': "sim_frame w w1 \<Longrightarrow> sim_frame w (backup_live_hkcu_key e w1)"
  by (rule sim_frame_trans [where ?w1.0 = w1], assumption, rule sim_frame_backup)

lemma sim_frame_read_regfile: "sim_frame w (snd (read_regfile p w))"
  by (auto simp: read_regfile_def Let_def sim_frame_refl sim_frame_print split: option.splits)

lemma SIM_read_regfile: "SIMULATION_MODE (snd (read_regfile p w)) = SIMULATION_MODE w"
  by (auto simp: read_regfile_def Let_def print_def split: option.splits)

lemma sim_frame_SIM: "sim_frame w w' \<Longrightarrow> SIMULATION_MODE w' = SIMULATION_MODE w"
  by (simp add: sim_frame_def)

lemma sim_frame_process_regfile:
  assumes "SIMULATION_MODE w"
  shows "sim_frame w (snd (process_regfile e p w))"
proof (cases "isfile w p")
  case False
  then show ?thesis by (simp add: process_regfile_def sim_frame_print)
next
  case True
  obtain r w1 where rr: "read_regfile p w = (r, w1)" by (cases "read_regfile p w")
  have f1: "sim_frame w w1" using sim_frame_read_regfile [of w p] rr by simp
  show ?thesis
  proof (cases r)
    case (Raise x)
    with True rr f1 show ?thesis by (simp add: process_regfile_def)
  next
    case (Return data)
    let ?w2 = "backup_live_hkcu_key e w1"
    let ?w3 = "write_utf16 REGFILE_OUTPUT_FILE (replace OLD_VALUE_NAME NEW_VALUE_NAME data) ?w2"
    let ?w4 = "print (FixedRegExported REGFILE_OUTPUT_FILE) ?w3"
    have f4: "sim_frame w ?w4"
      by (intro sim_frame_print' sim_frame_write' sim_frame_backup' f1) simp
    have sm: "SIMULATION_MODE ?w4" using assms sim_frame_SIM [OF f4] by simp
    with True rr Return f1 f4 show ?thesis
      by (simp add: process_regfile_def Let_def sim_frame_print')
  qed
qed

lemma sim_frame_export_and_save:
  assumes "SIMULATION_MODE w"
  shows "sim_frame w (snd (export_and_save e m w))"
proof -
  obtain b w1 where ex: "reg_export e (HKU m) TARGET_REL_PATH SNAPSHOT_EXPORT_FILE w = (b, w1)"
    by (cases "reg_export e (HKU m) TARGET_REL_PATH SNAPSHOT_EXPORT_FILE w")
  have f1: "sim_frame w w1"
    using sim_frame_reg_export [of SNAPSHOT_EXPORT_FILE w e "HKU m" TARGET_REL_PATH] ex by simp
  show ?thesis
  proof (cases b)
    case False
    with ex f1 show ?thesis by (simp add: export_and_save_def sim_frame_print')
  next
    case True
    show ?thesis
    proof (cases "read_utf16 w1 SNAPSHOT_EXPORT_FILE")
      case None
      with True ex f1 show ?thesis by (simp add: export_and_save_def sim_frame_print')
    next
      case (Some data)
      let ?w2 = "write_utf16 OUTPUT_REG_FILE (fix_export_text m data) w1"
      let ?w3 = "print (FixedRegFileCreated OUTPUT_REG_FILE) ?w2"
      have f3: "sim_frame w ?w3"
        by (intro sim_frame_print' sim_frame_write' f1) simp
      have sm: "SIMULATION_MODE ?w3" using assms sim_frame_SIM [OF f3] by simp
      with True ex Some f3 show ?thesis
        by (simp add: export_and_save_def Let_def)
    qed
  qed
qed

lemma modify_hive_value_simulation:
  assumes "SIMULATION_MODE w"
  shows "\<exists>ms. snd (modify_hive_value e m w) = w\<lparr>trace := trace w @ map Print ms\<rparr>"
proof -
  have "snd (modify_hive_value_try e m w) = w"
    using assms by (simp add: modify_hive_value_try_def split: result.splits prod.splits)
  then obtain r where t: "modify_hive_value_try e m w = (r, w)"
    by (cases "modify_hive_value_try e m w") simp
  show ?thesis
  proof (cases "\<exists>x. r = Raise x \<and> x \<noteq> FileNotFoundError")
    case True
    then obtain x where "r = Raise x" "x \<noteq> FileNotFoundError" by blast
    with t have "snd (modify_hive_value e m w) = w\<lparr>trace := trace w @ map Print [ErrorModifyingHive x]\<rparr>"
      by (simp add: modify_hive_value_def print_def)
    then show ?thesis by blast
  next
    case False
    with t have "snd (modify_hive_value e m w) = w\<lparr>trace := trace w @ map Print []\<rparr>"
      by (cases r) (auto simp: modify_hive_value_def)
    then show ?thesis by blast
  qed
qed


text \<open>
  Claim C2. In simulation mode \<open>modify_hive_value\<close> leaves the world as it is but for
  printed lines, so it calls no \<open>SetValueEx\<close>; and \<open>process_regfile\<close> and
  \<open>export_and_save\<close> leave the live key tree, the loaded hives and every file other than
  the backups and the generated files as they are, running no command other than
  \<open>reg export\<close> into a backup file, so no \<open>reg import\<close>.
\<close>

theorem simulation_mode_changes_no_registry:
  assumes "SIMULATION_MODE w"
  shows "(\<exists>ms. snd (modify_hive_value e m w) = w\<lparr>trace := trace w @ map Print ms\<rparr>) \<and>
     sim_frame w (snd (process_regfile e p w)) \<and>
     sim_frame w (snd (export_and_save e m w))"
  using assms modify_hive_value_simulation sim_frame_process_regfile sim_frame_export_and_save
  by blast

theorem simulation_mode_changes_no_registry_witness:
  "SIMULATION_MODE regfile_world \<and>
   sim_frame regfile_world (snd (process_regfile bare_env ''in.reg'' regfile_world)) \<and>
   sim_frame regfile_world (snd (export_and_save bare_env TEMP_MOUNT_NAME regfile_world))"
  using simulation_mode_changes_no_registry
          [of regfile_world bare_env TEMP_MOUNT_NAME "''in.reg''"]
  by (simp add: regfile_world_def empty_world_def)


section \<open>\<open>process_regfile\<close>\<close>

lemma reg_import_frame:
  "files (snd (reg_import e f w)) = files w"
  "mounted (snd (reg_import e f w)) = mounted w"
  "SIMULATION_MODE (snd (reg_import e f w)) = SIMULATION_MODE w"
  "trace (snd (reg_import e f w)) = trace w @ [Run [''reg'', ''import'', f]]"
  by (simp_all add: reg_import_def run_def Let_def split: option.splits)

lemma read_regfile_frame:
  "files (snd (read_regfile p w)) = files w"
  "\<exists>ms. trace (snd (read_regfile p w)) = trace w @ map Print ms"
proof -
  show "files (snd (read_regfile p w)) = files w"
    by (simp add: read_regfile_def print_def Let_def split: option.splits)
  have "trace (snd (read_regfile p w)) = trace w @ map Print [] \<or>
        trace (snd (read_regfile p w)) = trace w @ map Print [FailedToReadAsUtf16 p]"
    by (simp add: read_regfile_def print_def Let_def split: option.splits)
  then show "\<exists>ms. trace (snd (read_regfile p w)) = trace w @ map Print ms" by blast
qed

lemma process_regfile_not_file:
  "\<not> isfile w p \<Longrightarrow>
   process_regfile e p w = (Return False, print (RegFileDoesNotExist p) w)"
  by (simp add: process_regfile_def)

lemma process_regfile_no_key_line:
  assumes "isfile w p" and "fst (read_regfile p w) = Return data"
    and "\<not> contains hkcu_header data"
  shows "process_regfile e p w =
     (Return False, print (KeyLineNotFound hkcu_header p) (snd (read_regfile p w)))"
  using assms
  by (cases "read_regfile p w") (simp add: process_regfile_def hkcu_header_def)

lemma process_regfile_no_output:
  assumes "\<not> isfile w p \<or> (\<exists>data. fst (read_regfile p w) = Return data \<and> \<not> contains hkcu_header data)"
  shows "fst (process_regfile e p w) = Return False \<and>
     files (snd (process_regfile e p w)) = files w \<and>
     (\<exists>ms. trace (snd (process_regfile e p w)) = trace w @ map Print ms)"
proof (cases "isfile w p")
  case False
  then have "process_regfile e p w = (Return False, print (RegFileDoesNotExist p) w)"
    by (rule process_regfile_not_file)
  moreover have "\<exists>ms. trace (print (RegFileDoesNotExist p) w) = trace w @ map Print ms"
    by (rule exI [of _ "[RegFileDoesNotExist p]"]) (simp add: print_def)
  ultimately show ?thesis by (simp add: print_def)
next
  case True
  with assms obtain data where d: "fst (read_regfile p w) = Return data"
      "\<not> contains hkcu_header data" by blast
  from read_regfile_frame(2) [of p w] obtain ms
    where ms: "trace (snd (read_regfile p w)) = trace w @ map Print ms" by blast
  have "process_regfile e p w =
     (Return False, print (KeyLineNotFound hkcu_header p) (snd (read_regfile p w)))"
    using True d by (rule process_regfile_no_key_line)
  moreover have "\<exists>ms. trace (print (KeyLineNotFound hkcu_header p) (snd (read_regfile p w)))
      = trace w @ map Print ms"
    by (rule exI [of _ "ms @ [KeyLineNotFound hkcu_header p]"]) (simp add: ms print_def)
  ultimately show ?thesis using read_regfile_frame(1) [of p w]
    by (simp add: print_def)
qed

lemma process_regfile_output:
  assumes "fst (process_regfile e p w) = Return True"
  shows "\<exists>data. fst (read_regfile p w) = Return data \<and>
     files (snd (process_regfile e p w)) REGFILE_OUTPUT_FILE =
       Some (text_file (replace OLD_VALUE_NAME NEW_VALUE_NAME data)) \<and>
     WriteText REGFILE_OUTPUT_FILE (replace OLD_VALUE_NAME NEW_VALUE_NAME data)
       \<in> set (trace (snd (process_regfile e p w)))"
proof -
  have isf: "isfile w p" using assms by (auto simp: process_regfile_def split: if_splits)
  obtain r w1 where rr: "read_regfile p w = (r, w1)" by (cases "read_regfile p w")
  from assms isf rr obtain data where r: "r = Return data"
    by (cases r) (auto simp: process_regfile_def)
  have c: "contains hkcu_header data"
    using assms isf rr r by (auto simp: process_regfile_def hkcu_header_def Let_def split: if_splits)
  let ?fixed = "replace OLD_VALUE_NAME NEW_VALUE_NAME data"
  let ?w4 = "print (FixedRegExported REGFILE_OUTPUT_FILE)
      (write_utf16 REGFILE_OUTPUT_FILE ?fixed (backup_live_hkcu_key e w1))"
  have w4: "files ?w4 REGFILE_OUTPUT_FILE = Some (text_file ?fixed)"
      "WriteText REGFILE_OUTPUT_FILE ?fixed \<in> set (trace ?w4)"
    by (simp_all add: print_def write_utf16_def)
  have "snd (process_regfile e p w) = ?w4 \<or>
        (\<exists>m. snd (process_regfile e p w) = print m (snd (reg_import e REGFILE_OUTPUT_FILE ?w4)))"
    using isf rr r c
    by (auto simp: process_regfile_def hkcu_header_def Let_def split: prod.splits bool.splits)
  then show ?thesis
  proof
    assume "snd (process_regfile e p w) = ?w4"
    with w4 rr r show ?thesis by simp
  next
    assume "\<exists>m. snd (process_regfile e p w) = print m (snd (reg_import e REGFILE_OUTPUT_FILE ?w4))"
    then obtain m where "snd (process_regfile e p w) = print m (snd (reg_import e REGFILE_OUTPUT_FILE ?w4))"
      by blast
    with w4 rr r show ?thesis by (simp add: print_def reg_import_frame)
  qed
qed

text \<open>
  Claim C7. When the path is not a file, or the text read from it does not contain the
  key line, \<open>process_regfile\<close> returns \<open>False\<close>, leaves all files as they are and adds
  only printed lines to the trace; when it returns \<open>True\<close>, the output file holds the
  text that was read with the old value name replaced by the new one throughout, and
  writing it is part of the trace.
\<close>

theorem process_regfile_result:
  "((\<not> isfile w p \<or>
      (\<exists>data. fst (read_regfile p w) = Return data \<and> \<not> contains hkcu_header data)) \<longrightarrow>
      fst (process_regfile e p w) = Return False \<and>
      files (snd (process_regfile e p w)) = files w \<and>
      (\<exists>ms. trace (snd (process_regfile e p w)) = trace w @ map Print ms)) \<and>
   (fst (process_regfile e p w) = Return True \<longrightarrow>
      (\<exists>data. fst (read_regfile p w) = Return data \<and>
         files (snd (process_regfile e p w)) REGFILE_OUTPUT_FILE =
           Some (text_file (replace OLD_VALUE_NAME NEW_VALUE_NAME data)) \<and>
         WriteText REGFILE_OUTPUT_FILE (replace OLD_VALUE_NAME NEW_VALUE_NAME data)
           \<in> set (trace (snd (process_regfile e p w)))))"
  using process_regfile_no_output [of w p e] process_regfile_output [of e p w] by blast

theorem process_regfile_result_witness:
  "fst (process_regfile bare_env ''missing.reg'' regfile_world) = Return False \<and>
   files (snd (process_regfile bare_env ''missing.reg'' regfile_world)) = files regfile_world \<and>
   fst (process_regfile bare_env ''in.reg'' regfile_world) = Return True \<and>
   files (snd (process_regfile bare_env ''in.reg'' regfile_world)) REGFILE_OUTPUT_FILE =
     Some (text_file (hkcu_header @ [LF, DQ] @ NEW_VALUE_NAME @ [DQ] @ ''=dword:1''))"
proof -
  have t: "fst (process_regfile bare_env ''in.reg'' regfile_world) = Return True"
    by (simp add: process_regfile_def regfile_world_def empty_world_def isfile_def
        read_regfile_def read_utf16_def text_file_def hkcu_header_def TARGET_REL_PATH_def
        startswith_def Let_def backup_live_hkcu_key_def reg_export_def lookup_key_def run_def
        print_def write_utf16_def split: prod.splits)
  have r: "fst (read_regfile ''in.reg'' regfile_world) =
      Return (hkcu_header @ [LF, DQ] @ OLD_VALUE_NAME @ [DQ] @ ''=dword:1'')"
    by (simp add: read_regfile_def read_utf16_def regfile_world_def empty_world_def text_file_def)
  have f: "replace OLD_VALUE_NAME NEW_VALUE_NAME
      (hkcu_header @ [LF, DQ] @ OLD_VALUE_NAME @ [DQ] @ ''=dword:1'') =
      hkcu_header @ [LF, DQ] @ NEW_VALUE_NAME @ [DQ] @ ''=dword:1''"
    by (simp add: replace.simps startswith_def hkcu_header_def TARGET_REL_PATH_def
        OLD_VALUE_NAME_def NEW_VALUE_NAME_def)
  have n: "\<not> isfile regfile_world ''missing.reg''"
    by (simp add: isfile_def regfile_world_def empty_world_def)
  show ?thesis
    using process_regfile_result [of regfile_world "''missing.reg''" bare_env]
          process_regfile_result [of regfile_world "''in.reg''" bare_env] t r f n
    by auto
qed


section \<open>The text written by \<open>export_and_save\<close>\<close>

lemma replace_Nil: "old \<noteq> [] \<Longrightarrow> replace old new [] = []"
  by (simp add: replace.simps)

lemma replace_prefix: "old \<noteq> [] \<Longrightarrow> replace old new (old @ s) = new @ replace old new s"
  by (subst replace.simps) (simp add: startswith_def)

lemma replace_Cons:
  "old \<noteq> [] \<Longrightarrow> \<not> startswith (c # s) old \<Longrightarrow> replace old new (c # s) = c # replace old new s"
  by (subst replace.simps) simp

lemma replace_self: "old \<noteq> [] \<Longrightarrow> replace old new old = new"
  using replace_prefix [of old new "[]"] by (simp add: replace_Nil)

lemma startswith_decompose: "startswith s p \<Longrightarrow> s = p @ drop (length p) s"
  by (metis append_take_drop_id startswith_def)

lemma CR_boundary: "is_line_boundary CR" and LF_boundary: "is_line_boundary LF"
  by (simp_all add: is_line_boundary_def)

lemma splitlines_line_append:
  "no_boundary u \<Longrightarrow> u \<noteq> [] \<Longrightarrow>
   splitlines (u @ s) = (case splitlines s of [] \<Rightarrow> [u] | l # ls \<Rightarrow> (u @ l) # ls)"
proof (induction u)
  case Nil
  then show ?case by simp
next
  case (Cons c u)
  have c: "\<not> is_line_boundary c" and u: "no_boundary u"
    using Cons.prems by (simp_all add: no_boundary_def)
  then have ncr: "c \<noteq> CR" using CR_boundary by auto
  show ?case
  proof (cases "u = []")
    case True
    with c ncr show ?thesis by (simp split: list.splits)
  next
    case False
    with Cons.IH u c ncr show ?thesis by (simp split: list.splits)
  qed
qed

lemma splitlines_first_prefix: "splitlines s = l # ls \<Longrightarrow> take (length l) s = l"
proof (induction s arbitrary: l ls)
  case Nil
  then show ?case by simp
next
  case (Cons c cs)
  then show ?case
    by (auto split: if_splits list.splits)
qed

lemma replace_hd_LF:
  assumes "old \<noteq> []" "new \<noteq> []" "LF \<notin> set new"
    and "replace old new cs \<noteq> []" "hd (replace old new cs) = LF"
  shows "cs \<noteq> [] \<and> hd cs = LF"
proof (cases cs)
  case Nil
  with assms show ?thesis by (simp add: replace_Nil)
next
  case (Cons d ds)
  show ?thesis
  proof (cases "startswith cs old")
    case True
    then have "cs = old @ drop (length old) cs" by (rule startswith_decompose)
    then have "replace old new cs = new @ replace old new (drop (length old) cs)"
      using replace_prefix [OF assms(1)] by metis
    with assms have "hd new = LF" by simp
    with assms have False by (cases new) auto
    then show ?thesis ..
  next
    case False
    with Cons assms show ?thesis by (simp add: replace_Cons)
  qed
qed

lemma splitlines_replace:
  assumes old: "old \<noteq> []" "no_boundary old" and new: "new \<noteq> []" "no_boundary new"
  shows "splitlines (replace old new s) = map (replace old new) (splitlines s)"
proof (induction s rule: length_induct)
  case (1 s)
  note IH = 1
  have LFnew: "LF \<notin> set new" using new LF_boundary by (auto simp: no_boundary_def)
  show ?case
  proof (cases s)
    case Nil
    then show ?thesis using old by (simp add: replace_Nil)
  next
    case (Cons c cs)
    show ?thesis
    proof (cases "startswith s old")
      case True
      define s' where "s' = drop (length old) s"
      have s: "s = old @ s'" using True s'_def by (simp add: startswith_decompose [symmetric])
      have "length s' < length s" using s old by (cases old) auto
      then have ih: "splitlines (replace old new s') = map (replace old new) (splitlines s')"
        using IH by blast
      have r: "replace old new s = new @ replace old new s'"
        using s replace_prefix [OF old(1)] by metis
      show ?thesis
      proof (cases "splitlines s'")
        case Nil
        then show ?thesis using r s ih old new
          by (simp add: splitlines_line_append replace_self)
      next
        case (Cons l ls)
        then show ?thesis using r s ih old new
          by (simp add: splitlines_line_append replace_prefix)
      qed
    next
      case False
      have r: "replace old new s = c # replace old new cs"
        using False Cons old by (simp add: replace_Cons)
      have ih: "splitlines (replace old new cs) = map (replace old new) (splitlines cs)"
        using IH Cons by simp
      show ?thesis
      proof (cases "c = CR \<and> cs \<noteq> [] \<and> hd cs = LF")
        case True
        then obtain cs' where cs: "cs = LF # cs'" by (cases cs) auto
        have "\<not> startswith cs old"
          using old LF_boundary cs by (cases old) (auto simp: startswith_def no_boundary_def)
        then have r2: "replace old new cs = LF # replace old new cs'"
          using cs old by (simp add: replace_Cons)
        have "splitlines (replace old new cs') = map (replace old new) (splitlines cs')"
          using IH Cons cs by simp
        then show ?thesis using True Cons r r2 cs old by (simp add: replace_Nil)
      next
        case nocrlf: False
        show ?thesis
        proof (cases "is_line_boundary c")
          case True
          have "\<not> (c = CR \<and> replace old new cs \<noteq> [] \<and> hd (replace old new cs) = LF)"
            using nocrlf replace_hd_LF [OF old(1) new(1) LFnew] by blast
          then have "splitlines (c # replace old new cs) = [] # splitlines (replace old new cs)"
            using True by auto
          moreover have "splitlines (c # cs) = [] # splitlines cs"
            using True nocrlf by auto
          ultimately show ?thesis using Cons r ih old by (simp add: replace_Nil)
        next
          case nb: False
          then have ncr: "c \<noteq> CR" using CR_boundary by auto
          have s1: "splitlines (c # replace old new cs) =
              (case splitlines (replace old new cs) of [] \<Rightarrow> [[c]] | l # ls \<Rightarrow> (c # l) # ls)"
            using nb ncr by simp
          have s2: "splitlines (c # cs) =
              (case splitlines cs of [] \<Rightarrow> [[c]] | l # ls \<Rightarrow> (c # l) # ls)"
            using nb ncr by simp
          show ?thesis
          proof (cases "splitlines cs")
            case Nil
            have "\<not> startswith [c] old"
            proof
              assume "startswith [c] old"
              then have "old = [c]" using old by (cases old) (auto simp: startswith_def)
              then show False using False Cons by (simp add: startswith_def)
            qed
            then have "replace old new [c] = [c]" using old by (simp add: replace_Cons replace_Nil)
            then show ?thesis using Nil s1 s2 ih Cons r by simp
          next
            case (Cons l ls)
            have pl: "take (length l) cs = l" using Cons by (rule splitlines_first_prefix)
            have "\<not> startswith (c # l) old"
            proof
              assume a: "startswith (c # l) old"
              then have "length (take (length old) (c # l)) = length old"
                by (simp only: startswith_def)
              then have le: "length old \<le> Suc (length l)"
                by simp
              have "take (length old) (c # take (length l) cs) = take (length old) (c # cs)"
                using le by (cases "length old") (simp_all add: min_def)
              then have "take (length old) (c # cs) = take (length old) (c # l)"
                using pl by simp
              also have "\<dots> = old" using a by (simp add: startswith_def)
              finally show False using False \<open>s = c # cs\<close> by (simp add: startswith_def)
            qed
            then have "replace old new (c # l) = c # replace old new l"
              using old by (simp add: replace_Cons)
            then show ?thesis using Cons s1 s2 ih \<open>s = c # cs\<close> r by simp
          qed
        qed
      qed
    qed
  qed
qed

lemma duplicate_blocks_plain_line:
  assumes h: "\<not> is_old_value_line h" "\<not> is_continued h"
  shows "duplicate_blocks (xs @ h # ys) = duplicate_blocks xs @ h # duplicate_blocks ys"
proof (induction xs rule: duplicate_blocks.induct)
  case 1
  then show ?case using h by simp
next
  case (2 line rest)
  show ?case
  proof (cases "is_old_value_line line")
    case False
    with 2 show ?thesis by simp
  next
    case True
    show ?thesis
    proof (cases "\<forall>x \<in> set rest. is_continued x")
      case all: True
      have t1: "takeWhile is_continued rest = rest"
        using all by (simp add: takeWhile_eq_all_conv)
      have d1: "dropWhile is_continued rest = []"
        using all by simp
      have t2: "takeWhile is_continued (rest @ h # ys) = rest"
        using all h by (simp add: takeWhile_append2)
      have d2: "dropWhile is_continued (rest @ h # ys) = h # ys"
        using all h by (simp add: dropWhile_append2)
      show ?thesis using True h by (simp add: Let_def t1 d1 t2 d2)
    next
      case False
      then have "takeWhile is_continued (rest @ h # ys) = takeWhile is_continued rest"
        and "dropWhile is_continued (rest @ h # ys) = dropWhile is_continued rest @ h # ys"
        by (auto simp: takeWhile_append1 dropWhile_append1)
      then show ?thesis using True 2(1) by (simp add: Let_def)
    qed
  qed
qed


lemma headers_plain:
  "hive_header TEMP_MOUNT_NAME \<noteq> []" "no_boundary (hive_header TEMP_MOUNT_NAME)"
  "hkcu_header \<noteq> []" "no_boundary hkcu_header"
  "\<not> is_old_value_line hkcu_header" "\<not> is_continued hkcu_header"
  by (simp_all add: hive_header_def hkcu_header_def TEMP_MOUNT_NAME_def TARGET_REL_PATH_def
      no_boundary_def is_line_boundary_def is_old_value_line_def is_continued_def strip_def
      isspace_def startswith_def endswith_def OLD_VALUE_NAME_def)

lemma fix_export_text_header:
  assumes "splitlines data = xs @ hive_header TEMP_MOUNT_NAME # ys"
  shows "fix_export_text TEMP_MOUNT_NAME data =
     join [LF]
       (duplicate_blocks (map (replace (hive_header TEMP_MOUNT_NAME) hkcu_header) xs) @
        hkcu_header #
        duplicate_blocks (map (replace (hive_header TEMP_MOUNT_NAME) hkcu_header) ys))"
proof -
  let ?R = "replace (hive_header TEMP_MOUNT_NAME) hkcu_header"
  have "splitlines (?R data) = map ?R (splitlines data)"
    by (rule splitlines_replace) (rule headers_plain)+
  also have "\<dots> = map ?R xs @ hkcu_header # map ?R ys"
    using assms by (simp add: replace_self headers_plain)
  finally show ?thesis
    by (simp add: fix_export_text_def duplicate_blocks_plain_line headers_plain)
qed

lemma reg_export_success:
  assumes "lookup_key w r rel = Some k"
  shows "reg_export e r rel f w =
     (True, (run [''reg'', ''export'', root_name r @ [BSL] @ rel, f, ''/y''] w)
        \<lparr>files := (files w)(f \<mapsto> text_file (reg_text e (root_name r @ [BSL] @ rel) k))\<rparr>)"
  using assms by (simp add: reg_export_def Let_def run_def)

lemma export_and_save_writes:
  assumes "lookup_key w (HKU m) TARGET_REL_PATH = Some k"
  shows "files (snd (export_and_save e m w)) OUTPUT_REG_FILE =
     Some (text_file (fix_export_text m (reg_text e (root_name (HKU m) @ [BSL] @ TARGET_REL_PATH) k)))"
proof -
  let ?data = "reg_text e (root_name (HKU m) @ [BSL] @ TARGET_REL_PATH) k"
  let ?w1 = "(run [''reg'', ''export'', root_name (HKU m) @ [BSL] @ TARGET_REL_PATH,
        SNAPSHOT_EXPORT_FILE, ''/y''] w)\<lparr>files := (files w)(SNAPSHOT_EXPORT_FILE \<mapsto> text_file ?data)\<rparr>"
  let ?w3 = "print (FixedRegFileCreated OUTPUT_REG_FILE)
      (write_utf16 OUTPUT_REG_FILE (fix_export_text m ?data) ?w1)"
  have ex: "reg_export e (HKU m) TARGET_REL_PATH SNAPSHOT_EXPORT_FILE w = (True, ?w1)"
    using assms by (rule reg_export_success)
  have rd: "read_utf16 ?w1 SNAPSHOT_EXPORT_FILE = Some ?data"
    by (simp add: read_utf16_def text_file_def run_def)
  have f3: "files ?w3 OUTPUT_REG_FILE = Some (text_file (fix_export_text m ?data))"
    by (simp add: print_def write_utf16_def)
  have "snd (export_and_save e m w) = ?w3 \<or>
        (\<exists>msg. snd (export_and_save e m w) = print msg (snd (reg_import e OUTPUT_REG_FILE ?w3)))"
    unfolding export_and_save_def ex using rd
    by (auto simp: Let_def split: prod.splits bool.splits)
  then show ?thesis
  proof
    assume "snd (export_and_save e m w) = ?w3"
    with f3 show ?thesis by simp
  next
    assume "\<exists>msg. snd (export_and_save e m w) = print msg (snd (reg_import e OUTPUT_REG_FILE ?w3))"
    then obtain msg where "snd (export_and_save e m w) = print msg (snd (reg_import e OUTPUT_REG_FILE ?w3))"
      by blast
    then have "files (snd (export_and_save e m w)) = files ?w3"
      by (simp add: print_def reg_import_def run_def Let_def split: option.splits)
    with f3 show ?thesis by simp
  qed
qed

text \<open>
  Claim C5. When the text that \<open>reg export\<close> wrote for the loaded key has the header
  \<open>[HKEY_USERS\TempHive\Software\KLab\BleachBraveSouls]\<close> as one of its lines, the file
  that \<open>export_and_save\<close> writes has \<open>[HKEY_CURRENT_USER\Software\KLab\BleachBraveSouls]\<close>
  in its place, between what the function makes of the lines before it and of the lines
  after it.
\<close>

theorem export_and_save_rewrites_root:
  assumes "lookup_key w (HKU TEMP_MOUNT_NAME) TARGET_REL_PATH = Some k"
    and "splitlines (reg_text e (root_name (HKU TEMP_MOUNT_NAME) @ [BSL] @ TARGET_REL_PATH) k) =
           xs @ hive_header TEMP_MOUNT_NAME # ys"
  shows "files (snd (export_and_save e TEMP_MOUNT_NAME w)) OUTPUT_REG_FILE =
     Some (text_file (join [LF]
       (duplicate_blocks (map (replace (hive_header TEMP_MOUNT_NAME) hkcu_header) xs) @
        hkcu_header #
        duplicate_blocks (map (replace (hive_header TEMP_MOUNT_NAME) hkcu_header) ys))))"
  using export_and_save_writes [OF assms(1)] fix_export_text_header [OF assms(2)] by simp

theorem export_and_save_rewrites_root_witness:
  "files (snd (export_and_save export_env TEMP_MOUNT_NAME mounted_world)) OUTPUT_REG_FILE =
     Some (text_file
       (''Windows Registry Editor Version 5.00'' @ [LF, LF] @
        hkcu_header @ [LF] @
        old_value_first_line @ [LF] @
        new_value_first_line @ [LF] @
        ''  cc,dd''))"
proof -
  have k: "lookup_key mounted_world (HKU TEMP_MOUNT_NAME) TARGET_REL_PATH =
      Some [OLD_VALUE_NAME \<mapsto> (''token'', 3)]"
    by (simp add: lookup_key_def hive_tree_def mounted_world_def empty_world_def old_value_hive_def)
  have l: "splitlines (reg_text export_env (root_name (HKU TEMP_MOUNT_NAME) @ [BSL] @ TARGET_REL_PATH)
        [OLD_VALUE_NAME \<mapsto> (''token'', 3)]) =
      [''Windows Registry Editor Version 5.00'', []] @ hive_header TEMP_MOUNT_NAME #
      [old_value_first_line, ''  cc,dd'']"
    by (simp add: export_env_def bare_env_def multiline_export_def hive_header_def
        TEMP_MOUNT_NAME_def TARGET_REL_PATH_def old_value_first_line_def OLD_VALUE_NAME_def
        is_line_boundary_def)
  show ?thesis
    using export_and_save_rewrites_root [OF k l]
    by (simp add: hive_header_def hkcu_header_def TEMP_MOUNT_NAME_def TARGET_REL_PATH_def
      old_value_first_line_def new_value_first_line_def is_old_value_line_def
      is_continued_def startswith_def endswith_def strip_def isspace_def replace.simps
      OLD_VALUE_NAME_def NEW_VALUE_NAME_def)
qed

text \<open>
  Claim C1 does not hold of the code. For a value whose data runs over two lines, the first
  ending with a backslash and the second not, the inner loop takes no line at all, since
  it asks whether the following line ends with a backslash: the copy under the new name
  is put between the two lines of the old value, so the old value loses its last line
  and the block is not duplicated in full.
\<close>

theorem export_and_save_splits_multiline_value:
  "fix_export_text TEMP_MOUNT_NAME multiline_export =
     ''Windows Registry Editor Version 5.00'' @ [LF, LF] @
     hkcu_header @ [LF] @
     old_value_first_line @ [LF] @
     new_value_first_line @ [LF] @
     ''  cc,dd''"
  by (simp add: fix_export_text_def multiline_export_def hive_header_def hkcu_header_def
      TEMP_MOUNT_NAME_def TARGET_REL_PATH_def is_line_boundary_def
      old_value_first_line_def new_value_first_line_def is_old_value_line_def
      is_continued_def startswith_def endswith_def strip_def isspace_def replace.simps
      OLD_VALUE_NAME_def NEW_VALUE_NAME_def)


section \<open>What backing up and searching add to the trace\<close>

lemma orw_start: "only_reg_work (trace w) w"
  by (simp add: only_reg_work_def)

lemma orw_step:
  assumes "only_reg_work b w" and "trace w' = trace w @ evs" and "list_all reg_work evs"
  shows "only_reg_work b w'"
proof -
  from assms(1) obtain evs0 where "trace w = b @ evs0" "list_all reg_work evs0"
    by (auto simp: only_reg_work_def)
  with assms(2,3) have "trace w' = b @ (evs0 @ evs) \<and> list_all reg_work (evs0 @ evs)" by simp
  then show ?thesis unfolding only_reg_work_def by blast
qed

lemma orw_trans:
  assumes "only_reg_work b w" and "only_reg_work (trace w) w'"
  shows "only_reg_work b w'"
proof -
  from assms(2) obtain evs where "trace w' = trace w @ evs" "list_all reg_work evs"
    by (auto simp: only_reg_work_def)
  with assms(1) show ?thesis by (rule orw_step)
qed

lemma orw_print:
  "only_reg_work b w \<Longrightarrow> m \<noteq> KeyNotFoundAnywhere \<Longrightarrow> only_reg_work b (print m w)"
  by (rule orw_step [where w = w and evs = "[Print m]"]) (simp_all add: print_def)

lemma orw_write: "only_reg_work b w \<Longrightarrow> only_reg_work b (write_utf16 f text w)"
  by (rule orw_step [where w = w and evs = "[WriteText f text]"]) (simp_all add: write_utf16_def)

lemma orw_reg_export:
  "only_reg_work b w \<Longrightarrow> only_reg_work b (snd (reg_export e r rel f w))"
  by (rule orw_step [where w = w and evs = "[Run [''reg'', ''export'', root_name r @ [BSL] @ rel, f, ''/y'']]"])
     (simp_all add: reg_export_def run_def Let_def split: option.splits)

lemma orw_reg_import:
  "only_reg_work b w \<Longrightarrow> only_reg_work b (snd (reg_import e f w))"
  by (rule orw_step [where w = w and evs = "[Run [''reg'', ''import'', f]]"])
     (simp_all add: reg_import_def run_def Let_def split: option.splits)

lemma orw_reg_load:
  "only_reg_work b w \<Longrightarrow> only_reg_work b (snd (reg_load h m w))"
  by (rule orw_step [where w = w and evs = "[Run [''reg'', ''load'', ''HKU'' @ [BSL] @ m, h]]"])
     (simp_all add: reg_load_def run_def Let_def)

lemma orw_reg_unload:
  "only_reg_work b w \<Longrightarrow> only_reg_work b (snd (reg_unload e m w))"
  by (rule orw_step [where w = w and evs = "[Run [''reg'', ''unload'', ''HKU'' @ [BSL] @ m]]"])
     (simp_all add: reg_unload_def run_def Let_def split: option.splits)

lemma trace_set_value: "trace (set_value key name v w) = trace w"
  by (simp add: set_value_def split: option.splits)

lemma orw_SetValueEx:
  "only_reg_work b w \<Longrightarrow> only_reg_work b (snd (SetValueEx_call e key name vtype val w))"
  by (rule orw_step [where w = w and evs = "[SetValueEx (snd key) name vtype val]"])
     (simp_all add: SetValueEx_call_def Let_def trace_set_value)

lemma modify_hive_value_try_world:
  "snd (modify_hive_value_try e m w) = w \<or>
   (\<exists>key vtype val. snd (modify_hive_value_try e m w) =
      snd (SetValueEx_call e key NEW_VALUE_NAME vtype val w))"
proof (cases "OpenKey e w m TARGET_REL_PATH")
  case (Raise x)
  then show ?thesis by (simp add: modify_hive_value_try_def)
next
  case (Return key)
  show ?thesis
  proof (cases "QueryValueEx w key OLD_VALUE_NAME")
    case (Raise x)
    with Return show ?thesis by (simp add: modify_hive_value_try_def)
  next
    case q: (Return v)
    obtain val vtype where v: "v = (val, vtype)" by (cases v)
    show ?thesis
    proof (cases "SIMULATION_MODE w")
      case True
      with Return q v show ?thesis by (simp add: modify_hive_value_try_def)
    next
      case False
      have "snd (modify_hive_value_try e m w) =
          snd (SetValueEx_call e key NEW_VALUE_NAME vtype val w)"
        using Return q v False
        by (cases "SetValueEx_call e key NEW_VALUE_NAME vtype val w")
           (simp add: modify_hive_value_try_def split: result.splits)
      then show ?thesis by blast
    qed
  qed
qed

lemma orw_modify_try:
  assumes "only_reg_work b w"
  shows "only_reg_work b (snd (modify_hive_value_try e m w))"
  using modify_hive_value_try_world [of e m w] assms orw_SetValueEx [OF assms] by auto

lemma orw_modify:
  assumes "only_reg_work b w"
  shows "only_reg_work b (snd (modify_hive_value e m w))"
proof -
  have 1: "only_reg_work b (snd (modify_hive_value_try e m w))"
    using assms by (rule orw_modify_try)
  have "snd (modify_hive_value e m w) = snd (modify_hive_value_try e m w) \<or>
        (\<exists>x. snd (modify_hive_value e m w) =
           print (ErrorModifyingHive x) (snd (modify_hive_value_try e m w)))"
    by (auto simp: modify_hive_value_def split: result.splits prod.splits)
  then show ?thesis using 1 by (auto simp: orw_print)
qed

lemma orw_backup:
  assumes "only_reg_work b w"
  shows "only_reg_work b (backup_live_hkcu_key e w)"
proof -
  have 1: "only_reg_work b (snd (reg_export e HKCU TARGET_REL_PATH LIVE_BACKUP_FILE w))"
    using assms by (rule orw_reg_export)
  have "\<exists>msg. msg \<noteq> KeyNotFoundAnywhere \<and> backup_live_hkcu_key e w =
      print msg (snd (reg_export e HKCU TARGET_REL_PATH LIVE_BACKUP_FILE w))"
    by (auto simp: backup_live_hkcu_key_def split: prod.splits bool.splits)
  then show ?thesis using 1 by (auto simp: orw_print)
qed

lemma orw_export_and_save:
  assumes "only_reg_work b w"
  shows "only_reg_work b (snd (export_and_save e m w))"
proof -
  obtain b1 w1 where ex: "reg_export e (HKU m) TARGET_REL_PATH SNAPSHOT_EXPORT_FILE w = (b1, w1)"
    by (cases "reg_export e (HKU m) TARGET_REL_PATH SNAPSHOT_EXPORT_FILE w")
  have 1: "only_reg_work b w1"
    using orw_reg_export [OF assms, of e "HKU m" TARGET_REL_PATH SNAPSHOT_EXPORT_FILE] ex by simp
  show ?thesis
  proof (cases "b1 \<and> read_utf16 w1 SNAPSHOT_EXPORT_FILE \<noteq> None")
    case False
    with ex 1 show ?thesis
      by (auto simp: export_and_save_def orw_print split: bool.splits)
  next
    case True
    then obtain data where d: "read_utf16 w1 SNAPSHOT_EXPORT_FILE = Some data" by auto
    let ?w3 = "print (FixedRegFileCreated OUTPUT_REG_FILE)
        (write_utf16 OUTPUT_REG_FILE (fix_export_text m data) w1)"
    have 3: "only_reg_work b ?w3" using 1 by (simp add: orw_print orw_write)
    have 4: "only_reg_work b (snd (reg_import e OUTPUT_REG_FILE ?w3))"
      using 3 by (rule orw_reg_import)
    show ?thesis using True ex d 3 4
      by (auto simp: export_and_save_def Let_def orw_print split: prod.splits bool.splits)
  qed
qed

lemma orw_rp_try:
  assumes "only_reg_work b w"
  shows "only_reg_work b (snd (rp_try e h w))"
proof -
  obtain b1 w1 where l: "reg_load h TEMP_MOUNT_NAME w = (b1, w1)"
    by (cases "reg_load h TEMP_MOUNT_NAME w")
  have 1: "only_reg_work b w1" using orw_reg_load [OF assms, of h TEMP_MOUNT_NAME] l by simp
  obtain b2 w2 where m: "modify_hive_value e TEMP_MOUNT_NAME w1 = (b2, w2)"
    by (cases "modify_hive_value e TEMP_MOUNT_NAME w1")
  have 2: "only_reg_work b w2" using orw_modify [OF 1, of e TEMP_MOUNT_NAME] m by simp
  have 3: "only_reg_work b (snd (reg_unload e TEMP_MOUNT_NAME w2))"
    using 2 by (rule orw_reg_unload)
  have 4: "only_reg_work b (snd (reg_unload e TEMP_MOUNT_NAME (snd (export_and_save e TEMP_MOUNT_NAME w2))))"
    using 2 by (intro orw_reg_unload orw_export_and_save)
  show ?thesis using l m 1 3 4
    by (auto simp: rp_try_def Let_def split: prod.splits bool.splits)
qed

lemma orw_rp_step:
  assumes "only_reg_work b w"
  shows "only_reg_work b (snd (rp_step e sid t w))"
proof (cases "find_user_hive_in_snapshot e w (snd t) sid")
  case None
  with assms show ?thesis by (simp add: rp_step_def)
next
  case (Some h)
  have 1: "only_reg_work b (snd (rp_try e h w))" using assms by (rule orw_rp_try)
  have 2: "only_reg_work b (snd (reg_unload e TEMP_MOUNT_NAME (snd (rp_try e h w))))"
    using 1 by (rule orw_reg_unload)
  show ?thesis using Some 1 2
    by (auto simp: rp_step_def split: prod.splits result.splits)
qed

lemma orw_rp_loop:
  "only_reg_work b w \<Longrightarrow> only_reg_work b (snd (rp_loop e sid ts w))"
proof (induction ts arbitrary: w)
  case Nil
  then show ?case by simp
next
  case (Cons t ts)
  have 1: "only_reg_work b (snd (rp_step e sid t w))" using Cons.prems by (rule orw_rp_step)
  show ?case
  proof (cases "rp_step e sid t w")
    case (Pair b1 w1)
    with 1 have "only_reg_work b w1" by simp
    with Pair Cons.IH [of w1] show ?thesis by (cases b1) simp_all
  qed
qed

lemma orw_filter_rps:
  "only_reg_work b w \<Longrightarrow> only_reg_work b (snd (filter_rps e rps w))"
proof (induction rps arbitrary: w)
  case Nil
  then show ?case by simp
next
  case (Cons t rps)
  have 1: "only_reg_work b (snd (rp_is_before_cutoff e (fst t) w))"
    using Cons.prems by (simp add: rp_is_before_cutoff_def Let_def orw_print)
  show ?case
  proof (cases "rp_is_before_cutoff e (fst t) w")
    case (Pair b1 w1)
    with 1 have "only_reg_work b w1" by simp
    with Pair Cons.IH [of w1] show ?thesis
      by (cases b1; cases "filter_rps e rps w1") simp_all
  qed
qed

lemma orw_search_rp:
  assumes "only_reg_work b w"
  shows "only_reg_work b (snd (search_old_restore_points e sid w))"
proof -
  obtain ts w1 where f: "filter_rps e (find_restore_point_snapshot_dirs e) w = (ts, w1)"
    by (cases "filter_rps e (find_restore_point_snapshot_dirs e) w")
  have 1: "only_reg_work b w1"
    using orw_filter_rps [OF assms, of e "find_restore_point_snapshot_dirs e"] f by simp
  have 2: "only_reg_work b (snd (rp_loop e sid (sort_rps_newest_first e ts) w1))"
    using 1 by (rule orw_rp_loop)
  show ?thesis using f 1 2
    by (auto simp: search_old_restore_points_def Let_def orw_print split: prod.splits bool.splits)
qed

lemma orw_vss_line_step:
  assumes "only_reg_work b (snd (snd st))"
  shows "only_reg_work b (snd (snd (vss_line_step e raw st)))"
proof -
  obtain c sh w where st: "st = (c, sh, w)" by (cases st) auto
  with assms have w: "only_reg_work b w" by simp
  show ?thesis
    unfolding st vss_line_step_def using w
    by (simp add: Let_def orw_print split: result.splits option.splits)
qed

lemma orw_vss_lines_loop:
  "only_reg_work b (snd (snd st)) \<Longrightarrow> only_reg_work b (snd (snd (vss_lines_loop e ls st)))"
  by (induction ls arbitrary: st) (simp_all add: orw_vss_line_step)

lemma orw_list_vss:
  "only_reg_work (trace w @ [Run [''vssadmin'', ''list'', ''shadows'']])
     (snd (list_vss_snapshots_before_cutoff e w))"
proof -
  let ?w1 = "run [''vssadmin'', ''list'', ''shadows''] w"
  let ?st = "vss_lines_loop e (splitlines (vssadmin_stdout e)) (empty_current, [], ?w1)"
  have "only_reg_work (trace ?w1) ?w1" by (rule orw_start)
  then have 1: "only_reg_work (trace w @ [Run [''vssadmin'', ''list'', ''shadows'']]) ?w1"
    by (simp add: run_def)
  have 2: "only_reg_work (trace w @ [Run [''vssadmin'', ''list'', ''shadows'']]) (snd (snd ?st))"
    by (rule orw_vss_lines_loop) (simp add: 1)
  show ?thesis using 2
    by (cases ?st) (auto simp: list_vss_snapshots_before_cutoff_def Let_def orw_print)
qed

lemma orw_vss_try:
  assumes "only_reg_work b w"
  shows "only_reg_work b (snd (vss_try e p found w))"
proof -
  obtain b1 w1 where l: "reg_load p TEMP_MOUNT_NAME w = (b1, w1)"
    by (cases "reg_load p TEMP_MOUNT_NAME w")
  have 1: "only_reg_work b w1" using orw_reg_load [OF assms, of p TEMP_MOUNT_NAME] l by simp
  obtain b2 w2 where m: "modify_hive_value e TEMP_MOUNT_NAME w1 = (b2, w2)"
    by (cases "modify_hive_value e TEMP_MOUNT_NAME w1")
  have 2: "only_reg_work b w2" using orw_modify [OF 1, of e TEMP_MOUNT_NAME] m by simp
  have 3: "only_reg_work b (snd (reg_unload e TEMP_MOUNT_NAME w2))"
    using 2 by (rule orw_reg_unload)
  have 4: "only_reg_work b (snd (reg_unload e TEMP_MOUNT_NAME (snd (export_and_save e TEMP_MOUNT_NAME w2))))"
    using 2 by (intro orw_reg_unload orw_export_and_save)
  show ?thesis using l m 1 3 4
    by (auto simp: vss_try_def Let_def split: prod.splits bool.splits)
qed

lemma orw_vss_loop:
  "only_reg_work b w \<Longrightarrow> only_reg_work b (snd (vss_loop e username shadows found w))"
proof (induction shadows arbitrary: found w)
  case Nil
  then show ?case by simp
next
  case (Cons shadow rest)
  show ?case
  proof (cases username)
    case None
    with Cons.prems show ?thesis by simp
  next
    case (Some u)
    let ?p = "path_join (path_join (path_join shadow ''Users'') u) ''NTUSER.DAT''"
    show ?thesis
    proof (cases "exists e w ?p")
      case False
      with Some Cons show ?thesis by (simp add: Let_def)
    next
      case True
      let ?w0 = "print (FoundCandidateNtuser ?p) w"
      obtain f1 r1 w1 where t: "vss_try e ?p found ?w0 = ((f1, r1), w1)"
        by (cases "vss_try e ?p found ?w0") auto
      have 0: "only_reg_work b ?w0" using Cons.prems by (simp add: orw_print)
      have 1: "only_reg_work b w1" using orw_vss_try [OF 0, of e ?p found] t by simp
      show ?thesis
      proof (cases r1)
        case (Return br)
        with Some True t 1 Cons.IH [of w1 f1] show ?thesis
          by (cases br) (simp_all add: Let_def)
      next
        case (Raise x)
        have "only_reg_work b (snd (reg_unload e TEMP_MOUNT_NAME (print (ErrorAccessingSnapshot shadow x) w1)))"
          using 1 by (intro orw_reg_unload orw_print) simp_all
        with Raise Some True t Cons.IH show ?thesis by (simp add: Let_def)
      qed
    qed
  qed
qed

lemma orw_search_vss:
  "only_reg_work (trace w @ [Run [''vssadmin'', ''list'', ''shadows'']])
     (snd (search_vss_snapshots e w))"
proof -
  let ?b = "trace w @ [Run [''vssadmin'', ''list'', ''shadows'']]"
  obtain shadows w1 where l: "list_vss_snapshots_before_cutoff e w = (shadows, w1)"
    by (cases "list_vss_snapshots_before_cutoff e w")
  have 1: "only_reg_work ?b w1" using orw_list_vss [of w e] l by simp
  have 2: "only_reg_work ?b (snd (vss_loop e (USERNAME e) shadows False w1))"
    using 1 by (rule orw_vss_loop)
  show ?thesis using l 1 2
    by (auto simp: search_vss_snapshots_def orw_print split: prod.splits result.splits)
qed


section \<open>The order of the two searches in \<open>main\<close>\<close>

lemma new_events_orw:
  assumes "only_reg_work (trace w @ pre) w'"
  shows "\<exists>evs. new_events w w' = pre @ evs \<and> list_all reg_work evs"
  using assms by (auto simp: only_reg_work_def new_events_def)

lemma main_search_found:
  assumes "fst (search_old_restore_points e sid (backup_live_hkcu_key e w))"
  shows "main_search e sid w =
     (Return (), snd (search_old_restore_points e sid (backup_live_hkcu_key e w)))"
  using assms
  by (cases "search_old_restore_points e sid (backup_live_hkcu_key e w)")
     (simp add: main_search_def Let_def)

lemma main_search_events:
  fixes e :: env and sid :: string and w :: world
  defines "rp \<equiv> search_old_restore_points e sid (backup_live_hkcu_key e w)"
  defines "vss \<equiv> search_vss_snapshots e (snd rp)"
  shows "\<exists>evs2.
     list_all reg_work (new_events w (snd rp)) \<and> list_all reg_work evs2 \<and>
     new_events w (snd (main_search e sid w)) =
       (if fst rp then new_events w (snd rp)
        else new_events w (snd rp) @ Run [''vssadmin'', ''list'', ''shadows''] # evs2 @
             (if fst vss = Return False then [Print KeyNotFoundAnywhere] else []))"
proof -
  have "only_reg_work (trace w) (snd rp)"
    unfolding rp_def by (intro orw_search_rp orw_backup orw_start)
  then obtain evs1 where e1: "trace (snd rp) = trace w @ evs1" "list_all reg_work evs1"
    by (auto simp: only_reg_work_def)
  then have n1: "new_events w (snd rp) = evs1" by (simp add: new_events_def)
  have "only_reg_work (trace (snd rp) @ [Run [''vssadmin'', ''list'', ''shadows'']]) (snd vss)"
    unfolding vss_def by (rule orw_search_vss)
  then obtain evs2 where e2: "trace (snd vss) =
      (trace (snd rp) @ [Run [''vssadmin'', ''list'', ''shadows'']]) @ evs2" "list_all reg_work evs2"
    by (auto simp: only_reg_work_def)
  have m: "snd (main_search e sid w) =
      (if fst rp then snd rp
       else if fst vss = Return False then print KeyNotFoundAnywhere (snd vss) else snd vss)"
    unfolding rp_def vss_def
    by (cases "search_old_restore_points e sid (backup_live_hkcu_key e w)";
        cases "search_vss_snapshots e
                 (snd (search_old_restore_points e sid (backup_live_hkcu_key e w)))")
       (auto simp: main_search_def Let_def split: result.splits)
  have "new_events w (snd (main_search e sid w)) =
       (if fst rp then evs1
        else evs1 @ Run [''vssadmin'', ''list'', ''shadows''] # evs2 @
             (if fst vss = Return False then [Print KeyNotFoundAnywhere] else []))"
    using m e1 e2 by (simp add: new_events_def print_def)
  with e1 e2 n1 show ?thesis by auto
qed

text \<open>
  Claim C6. In the part of \<open>main\<close> that searches, \<open>vssadmin list shadows\<close>, the first
  thing \<open>search_vss_snapshots\<close> does, is run exactly when \<open>search_old_restore_points\<close>
  returned \<open>False\<close>, and then right after everything that search did; the report that
  the key was not found is printed exactly when both searches returned \<open>False\<close>; and
  when the restore points gave the key, \<open>main\<close> returns in the world that search left.
\<close>

theorem main_search_order:
  "(Run [''vssadmin'', ''list'', ''shadows''] \<in> set (new_events w (snd (main_search e sid w))) \<longleftrightarrow>
      \<not> fst (search_old_restore_points e sid (backup_live_hkcu_key e w))) \<and>
   (\<not> fst (search_old_restore_points e sid (backup_live_hkcu_key e w)) \<longrightarrow>
      (\<exists>evs. new_events w (snd (main_search e sid w)) =
         new_events w (snd (search_old_restore_points e sid (backup_live_hkcu_key e w))) @
         Run [''vssadmin'', ''list'', ''shadows''] # evs)) \<and>
   (Print KeyNotFoundAnywhere \<in> set (new_events w (snd (main_search e sid w))) \<longleftrightarrow>
      \<not> fst (search_old_restore_points e sid (backup_live_hkcu_key e w)) \<and>
      fst (search_vss_snapshots e
             (snd (search_old_restore_points e sid (backup_live_hkcu_key e w)))) = Return False) \<and>
   (fst (search_old_restore_points e sid (backup_live_hkcu_key e w)) \<longrightarrow>
      main_search e sid w =
        (Return (), snd (search_old_restore_points e sid (backup_live_hkcu_key e w))))"
proof -
  let ?rp = "search_old_restore_points e sid (backup_live_hkcu_key e w)"
  obtain evs2 where a: "list_all reg_work (new_events w (snd ?rp))" "list_all reg_work evs2"
    and n: "new_events w (snd (main_search e sid w)) =
       (if fst ?rp then new_events w (snd ?rp)
        else new_events w (snd ?rp) @ Run [''vssadmin'', ''list'', ''shadows''] # evs2 @
             (if fst (search_vss_snapshots e (snd ?rp)) = Return False
              then [Print KeyNotFoundAnywhere] else []))"
    using main_search_events [where e = e and sid = sid and w = w] by blast
  have v: "Run [''vssadmin'', ''list'', ''shadows''] \<notin> set (new_events w (snd ?rp))"
          "Run [''vssadmin'', ''list'', ''shadows''] \<notin> set evs2"
    using a by (auto simp: list_all_iff)
  have k: "Print KeyNotFoundAnywhere \<notin> set (new_events w (snd ?rp))"
          "Print KeyNotFoundAnywhere \<notin> set evs2"
    using a by (auto simp: list_all_iff)
  show ?thesis using n v k main_search_found [where e = e and sid = sid and w = w] by auto
qed

theorem main_search_order_witness:
  "\<not> fst (search_old_restore_points bare_env ''S-1-5-21-7''
            (backup_live_hkcu_key bare_env empty_world)) \<and>
   Run [''vssadmin'', ''list'', ''shadows'']
     \<in> set (new_events empty_world (snd (main_search bare_env ''S-1-5-21-7'' empty_world))) \<and>
   Print KeyNotFoundAnywhere
     \<in> set (new_events empty_world (snd (main_search bare_env ''S-1-5-21-7'' empty_world))) \<and>
   fst (search_old_restore_points restore_env ''S-1-5-21-7''
          (backup_live_hkcu_key restore_env restore_world)) \<and>
   main_search restore_env ''S-1-5-21-7'' restore_world =
     (Return (),
      snd (search_old_restore_points restore_env ''S-1-5-21-7''
             (backup_live_hkcu_key restore_env restore_world)))"
proof -
  have a: "\<not> fst (search_old_restore_points bare_env ''S-1-5-21-7''
            (backup_live_hkcu_key bare_env empty_world))"
    by code_simp
  have b: "fst (search_vss_snapshots bare_env
      (snd (search_old_restore_points bare_env ''S-1-5-21-7''
              (backup_live_hkcu_key bare_env empty_world)))) = Return False"
    by code_simp
  have c: "fst (search_old_restore_points restore_env ''S-1-5-21-7''
          (backup_live_hkcu_key restore_env restore_world))"
    by code_simp
  show ?thesis
    using main_search_order [of empty_world bare_env "''S-1-5-21-7''"]
          main_search_order [of restore_world restore_env "''S-1-5-21-7''"] a b c
    by blast
qed


section \<open>\<open>search_old_restore_points\<close>\<close>












section \<open>\<open>list_vss_snapshots_before_cutoff\<close>\<close>

lemma vss_line_step_ctime:
  "cur_ctime (fst (vss_line_step e raw (c, sh, w))) =
     (if is_id_line raw then cur_ctime c
      else if is_ctime_line raw then
        Some (case parse_creation_time e (date_of raw) of Return t \<Rightarrow> Some t | Raise x \<Rightarrow> None)
      else if is_volume_line raw then None
      else cur_ctime c)"
  by (simp add: vss_line_step_def is_id_line_def is_ctime_line_def is_volume_line_def date_of_def
      empty_current_def Let_def split: result.splits option.splits)

lemma vss_line_step_shadows:
  "fst (snd (vss_line_step e raw (c, sh, w))) =
     sh @ (if is_volume_line raw then
             (case cur_ctime c of
                Some (Some t) \<Rightarrow> if t < CUTOFF_DATETIME then [path_of raw] else []
              | _ \<Rightarrow> [])
           else [])"
  by (simp add: vss_line_step_def is_id_line_def is_ctime_line_def is_volume_line_def path_of_def
      Let_def split: result.splits option.splits)

lemma vss_lines_loop_snoc:
  "vss_lines_loop e (ls @ [x]) st = vss_line_step e x (vss_lines_loop e ls st)"
  by (induction ls arbitrary: st) simp_all

lemma volume_not_ctime: "is_volume_line x \<Longrightarrow> \<not> is_ctime_line x"
  by (simp add: is_volume_line_def is_ctime_line_def)

lemma vss_loop_ctime:
  "cur_ctime (fst (vss_lines_loop e ls (empty_current, [], w))) =
     (case governing_line ls of
        None \<Rightarrow> None
      | Some l \<Rightarrow>
          if is_ctime_line l then
            Some (case parse_creation_time e (date_of l) of Return t \<Rightarrow> Some t | Raise x \<Rightarrow> None)
          else None)"
proof (induction ls rule: rev_induct)
  case Nil
  then show ?case by (simp add: governing_line_def empty_current_def)
next
  case (snoc x ls)
  obtain c sh w1 where st: "vss_lines_loop e ls (empty_current, [], w) = (c, sh, w1)"
    by (cases "vss_lines_loop e ls (empty_current, [], w)") auto
  have id: "is_id_line x \<Longrightarrow> \<not> is_ctime_line x \<and> \<not> is_volume_line x"
    by (simp add: is_ctime_line_def is_volume_line_def)
  show ?case
    using snoc.IH st id [of] volume_not_ctime [of x]
    by (auto simp: vss_lines_loop_snoc vss_line_step_ctime governing_line_def)
qed

lemma snoc_eq_split:
  "ls @ [x] = pre @ v # post \<longleftrightarrow>
     (post = [] \<and> pre = ls \<and> v = x) \<or> (\<exists>post'. post = post' @ [x] \<and> ls = pre @ v # post')"
  by (cases post rule: rev_cases) auto

lemma selected_snoc:
  "selected e (ls @ [x]) p \<longleftrightarrow>
     selected e ls p \<or>
     (is_volume_line x \<and> path_of x = p \<and>
      (\<exists>l t. governing_line ls = Some l \<and> is_ctime_line l \<and>
         parse_creation_time e (date_of l) = Return t \<and> t < CUTOFF_DATETIME))"
proof
  assume "selected e (ls @ [x]) p"
  then obtain pre v post l t where d: "ls @ [x] = pre @ v # post"
    and q: "is_volume_line v" "path_of v = p" "governing_line pre = Some l" "is_ctime_line l"
      "parse_creation_time e (date_of l) = Return t" "t < CUTOFF_DATETIME"
    unfolding selected_def by blast
  from d consider "post = []" "pre = ls" "v = x"
    | post' where "post = post' @ [x]" "ls = pre @ v # post'"
    unfolding snoc_eq_split by blast
  then show "selected e ls p \<or>
     (is_volume_line x \<and> path_of x = p \<and>
      (\<exists>l t. governing_line ls = Some l \<and> is_ctime_line l \<and>
         parse_creation_time e (date_of l) = Return t \<and> t < CUTOFF_DATETIME))"
  proof cases
    case 1
    with q show ?thesis by blast
  next
    case 2
    with q have "selected e ls p" unfolding selected_def by blast
    then show ?thesis ..
  qed
next
  assume "selected e ls p \<or>
     (is_volume_line x \<and> path_of x = p \<and>
      (\<exists>l t. governing_line ls = Some l \<and> is_ctime_line l \<and>
         parse_creation_time e (date_of l) = Return t \<and> t < CUTOFF_DATETIME))"
  then show "selected e (ls @ [x]) p"
  proof
    assume "selected e ls p"
    then obtain pre v post l t where d: "ls = pre @ v # post"
      and q: "is_volume_line v" "path_of v = p" "governing_line pre = Some l" "is_ctime_line l"
        "parse_creation_time e (date_of l) = Return t" "t < CUTOFF_DATETIME"
      unfolding selected_def by blast
    from d have "ls @ [x] = pre @ v # (post @ [x])" by simp
    with q show ?thesis unfolding selected_def by blast
  next
    assume a: "is_volume_line x \<and> path_of x = p \<and>
      (\<exists>l t. governing_line ls = Some l \<and> is_ctime_line l \<and>
         parse_creation_time e (date_of l) = Return t \<and> t < CUTOFF_DATETIME)"
    have "ls @ [x] = ls @ x # []" by simp
    with a show ?thesis unfolding selected_def by blast
  qed
qed

lemma vss_loop_shadows:
  "p \<in> set (fst (snd (vss_lines_loop e ls (empty_current, [], w)))) \<longleftrightarrow> selected e ls p"
proof (induction ls rule: rev_induct)
  case Nil
  then show ?case by (simp add: selected_def)
next
  case (snoc x ls)
  obtain c sh w1 where st: "vss_lines_loop e ls (empty_current, [], w) = (c, sh, w1)"
    by (cases "vss_lines_loop e ls (empty_current, [], w)") auto
  have ct: "cur_ctime c =
     (case governing_line ls of
        None \<Rightarrow> None
      | Some l \<Rightarrow>
          if is_ctime_line l then
            Some (case parse_creation_time e (date_of l) of Return t \<Rightarrow> Some t | Raise x \<Rightarrow> None)
          else None)"
    using vss_loop_ctime [of e ls w] st by simp
  have "p \<in> set (fst (snd (vss_lines_loop e (ls @ [x]) (empty_current, [], w)))) \<longleftrightarrow>
      p \<in> set sh \<or>
      (is_volume_line x \<and> path_of x = p \<and>
        (\<exists>l t. governing_line ls = Some l \<and> is_ctime_line l \<and>
           parse_creation_time e (date_of l) = Return t \<and> t < CUTOFF_DATETIME))"
  proof (cases "is_volume_line x")
    case False
    then show ?thesis by (simp add: vss_lines_loop_snoc st vss_line_step_shadows)
  next
    case vol: True
    show ?thesis
    proof (cases "governing_line ls")
      case None
      with ct vol show ?thesis by (simp add: vss_lines_loop_snoc st vss_line_step_shadows)
    next
      case (Some l)
      show ?thesis
      proof (cases "is_ctime_line l")
        case False
        with ct vol Some show ?thesis
          by (simp add: vss_lines_loop_snoc st vss_line_step_shadows)
      next
        case True
        show ?thesis
        proof (cases "parse_creation_time e (date_of l)")
          case (Raise x2)
          with ct vol Some True show ?thesis
            by (simp add: vss_lines_loop_snoc st vss_line_step_shadows)
        next
          case (Return t)
          with ct vol Some True show ?thesis
            by (auto simp: vss_lines_loop_snoc st vss_line_step_shadows)
        qed
      qed
    qed
  qed
  then show ?case using snoc.IH st by (simp add: selected_snoc)
qed

lemma list_vss_fst:
  "fst (list_vss_snapshots_before_cutoff e w) =
     fst (snd (vss_lines_loop e (splitlines (vssadmin_stdout e))
                 (empty_current, [], run [''vssadmin'', ''list'', ''shadows''] w)))"
  by (simp add: list_vss_snapshots_before_cutoff_def Let_def split: prod.splits)

text \<open>
  Claim C3. A path is returned by \<open>list_vss_snapshots_before_cutoff\<close> exactly when the
  output of \<open>vssadmin\<close> has a volume line with that path such that the last creation-time
  or volume line before it is a creation-time line whose date \<open>strptime\<close> parsed and
  \<open>astimezone\<close> converted to a UTC time strictly before the cutoff. So every returned
  path has such a creation time, and a volume line with no creation-time line since the
  volume line before it, or with one that was not parsed, adds nothing.
\<close>

theorem list_vss_snapshots_before_cutoff_paths:
  "p \<in> set (fst (list_vss_snapshots_before_cutoff e w)) \<longleftrightarrow>
     (\<exists>pre v post l t.
        splitlines (vssadmin_stdout e) = pre @ v # post \<and>
        is_volume_line v \<and> path_of v = p \<and>
        governing_line pre = Some l \<and> is_ctime_line l \<and>
        parse_creation_time e (date_of l) = Return t \<and> t < CUTOFF_DATETIME)"
  using vss_loop_shadows [of p e "splitlines (vssadmin_stdout e)"]
  by (simp add: list_vss_fst selected_def)

theorem list_vss_snapshots_before_cutoff_paths_witness:
  "shadow_path \<in> set (fst (list_vss_snapshots_before_cutoff vss_env empty_world)) \<and>
   parse_creation_time vss_env ''10/1/2025 12:11:45 PM'' = Return (utc_datetime 2025 10 1 12 11 45) \<and>
   utc_datetime 2025 10 1 12 11 45 < CUTOFF_DATETIME"
proof -
  let ?ls = "splitlines (vssadmin_stdout vss_env)"
  have d: "?ls = take 3 ?ls @ (?ls ! 3) # []"
    by code_simp
  have v: "is_volume_line (?ls ! 3)" "path_of (?ls ! 3) = shadow_path"
    by code_simp+
  have g: "governing_line (take 3 ?ls) = Some (?ls ! 1)" "is_ctime_line (?ls ! 1)"
    by code_simp+
  have dt: "date_of (?ls ! 1) = ''10/1/2025 12:11:45 PM''"
    by code_simp
  have t: "parse_creation_time vss_env ''10/1/2025 12:11:45 PM'' =
      Return (utc_datetime 2025 10 1 12 11 45)"
    by (simp add: parse_creation_time_def vss_env_def bare_env_def)
  have lt: "utc_datetime 2025 10 1 12 11 45 < CUTOFF_DATETIME"
    by (simp add: CUTOFF_DATETIME_def utc_datetime_def days_from_civil_def)
  have "shadow_path \<in> set (fst (list_vss_snapshots_before_cutoff vss_env empty_world))"
    using list_vss_snapshots_before_cutoff_paths [of shadow_path vss_env empty_world]
          d v g dt t lt
    by metis
  with t lt show ?thesis by simp
qed


end
